theory Spec2Isabelle
  imports Complex_Main
begin

unbundle bit_operations_syntax

section \<open>Pauli masks and the Majorana pair operator (jw\_transform/hamiltonian.py)\<close>

text \<open>
  A \<open>PauliMask(x, z)\<close> is read by the code through \<open>mask[0]\<close> and \<open>mask[1]\<close>; it is a
  pair of bit masks. Majorana (parity-mode) indices and masks are natural numbers.
  Python's \<open>floor(q/2)\<close> on an index is \<open>q div 2\<close>, \<open>2**k\<close> is \<open>2 ^ k\<close> and
  \<open>sum(2**i for i in range(a+1, b))\<close> is the sum over \<open>[a+1..<b]\<close>.
\<close>

type_synonym PauliMask = "nat \<times> nat"

definition SYK_pair_to_mask :: "nat \<Rightarrow> nat \<Rightarrow> complex \<times> PauliMask" where
  "SYK_pair_to_mask p q =
     (if q > p then
        (if q div 2 = p div 2 then (\<i>, (0, 2 ^ (q div 2)))
         else
           (let x_mask = 2 ^ (p div 2) + 2 ^ (q div 2);
                z_mask = sum_list (map (\<lambda>i. 2 ^ i) [p div 2 + 1 ..< q div 2]);
                z_mask = (if q mod 2 = 1 then z_mask + 2 ^ (q div 2) else z_mask)
            in if p mod 2 = 0 then (- \<i>, (x_mask, z_mask + 2 ^ (p div 2)))
               else (\<i>, (x_mask, z_mask))))
      else
        (if q div 2 = p div 2 then (- \<i>, (0, 2 ^ (q div 2)))
         else
           (let x_mask = 2 ^ (q div 2) + 2 ^ (p div 2);
                z_mask = sum_list (map (\<lambda>i. 2 ^ i) [q div 2 + 1 ..< p div 2]);
                z_mask = (if p mod 2 = 1 then z_mask + 2 ^ (p div 2) else z_mask)
            in if q mod 2 = 0 then (\<i>, (x_mask, z_mask + 2 ^ (q div 2)))
               else (- \<i>, (x_mask, z_mask)))))"

section \<open>Exceptions\<close>

text \<open>
  The Python exceptions the modelled code can raise. A \<open>ValueError\<close> carries what its
  message says: the rejected Trotter order, the text \<open>int()\<close> could not read, the
  negative shift count of \<open>1 << k\<close>, the seed that numpy refuses ("Seed must be between
  0 and 2**32 - 1") or the scale that numpy refuses ("scale < 0").
\<close>

datatype value_error =
    Order_must_be_1_or_2 int
  | Invalid_literal_for_int string
  | Negative_shift_count
  | Seed_out_of_range
  | Scale_negative

datatype error = ZeroDivisionError | IndexError | ValueError value_error

section \<open>The PPR synthesizer (ppr/ppr.py)\<close>

text \<open>
  The register is the caller's, external object; the code only issues operations against
  it. The model keeps the register as the trace of operations issued so far, in order:
  \<open>S_inv m\<close>, \<open>Had m\<close> and \<open>S_gate m\<close> are the calls \<open>qpu.s_inv(m)\<close>, \<open>qpu.had(m)\<close>
  and \<open>qpu.s(m)\<close> on a bit mask of qubits, \<open>CNOT c t\<close> is
  \<open>qubits[t].x(cond=qubits[c])\<close> and \<open>Rz t a\<close> is \<open>qubits[t].rz(a)\<close>.
  Floating-point numbers are idealised as reals.
\<close>

datatype gate =
    S_inv nat
  | Had nat
  | CNOT nat nat
  | Rz nat real
  | S_gate nat

text \<open>
  Modelled from the spec: the unit-tagged angle of the external units library (the value
  with a \<open>to\<close> method) is not part of the sources. It is a magnitude tagged with degrees
  or radians, and \<open>theta.to("deg").mag\<close> is its magnitude in degrees.
\<close>

datatype unit_angle = Deg real | Rad real

definition rad2deg :: "real \<Rightarrow> real" where
  "rad2deg r = r * 180 / pi"

fun to_deg_mag :: "unit_angle \<Rightarrow> real" where
  "to_deg_mag (Deg d) = d"
| "to_deg_mag (Rad r) = rad2deg r"

text \<open>
  The three shapes of \<open>theta\<close> that \<open>_compute\<close> tells apart: a unit-tagged value, a
  tuple \<open>(a, b)\<close> of integers standing for \<open>a\<pi>/b\<close>, and a plain number.
\<close>

datatype theta = Tagged unit_angle | Frac int int | Raw real

text \<open>
  The block "Standardize Angle" of \<open>_compute\<close>; its result is the local \<open>angle_deg\<close>.
  Dividing by a zero \<open>theta[1]\<close> raises.
\<close>

definition standardize_angle :: "theta \<Rightarrow> error + real" where
  "standardize_angle theta =
     (case theta of
        Tagged u \<Rightarrow> Inr (to_deg_mag u)
      | Frac a b \<Rightarrow>
          if b = 0 then Inl ZeroDivisionError
          else Inr (rad2deg (pi * real_of_int a / real_of_int b))
      | Raw t \<Rightarrow> if \<bar>t\<bar> > 2 * pi then Inr t else Inr (rad2deg t))"

text \<open>Python's \<open>int.bit_length()\<close> on a non-negative integer.\<close>

fun bit_length :: "nat \<Rightarrow> nat" where
  "bit_length n = (if n = 0 then 0 else Suc (bit_length (n div 2)))"

declare bit_length.simps [simp del]

text \<open>
  Masks are unsigned; the two's-complement expressions \<open>temp_mask & -temp_mask\<close> and
  \<open>qubits_in_masks & ~(1 << target)\<close> are evaluated over the integers, as Python does.
\<close>

lemma xor_lowest_bit_int: "(n::int) XOR (n AND - n) = n AND (n - 1)"
  by (auto simp add: minus_eq_not_minus_1 bit_eq_iff bit_simps)

lemma clear_lowest_bit_less:
  assumes "n \<noteq> 0"
  shows "n XOR nat (int n AND - int n) < n"
proof -
  have "int (n XOR nat (int n AND - int n)) = int n XOR (int n AND - int n)"
    by (simp add: of_nat_xor_eq)
  also have "\<dots> = int n AND (int n - 1)"
    by (rule xor_lowest_bit_int)
  also have "\<dots> \<le> int n - 1"
    using assms by (intro AND_upper2) simp
  finally show ?thesis by linarith
qed

text \<open>
  The loop \<open>while temp_mask:\<close> of \<open>_compute\<close>: one controlled-NOT per set bit of
  \<open>temp_mask\<close>, lowest bit first, each control index appended to
  \<open>uncomputation_controls\<close>.
\<close>

function ladder :: "nat \<Rightarrow> nat \<Rightarrow> gate list \<Rightarrow> nat list \<Rightarrow> gate list \<times> nat list" where
  "ladder target temp_mask register uncomputation_controls =
     (if temp_mask \<noteq> 0 then
        (let lsb = nat (int temp_mask AND - int temp_mask);
             control_idx = bit_length lsb - 1
         in ladder target (temp_mask XOR lsb) (register @ [CNOT control_idx target])
              (uncomputation_controls @ [control_idx]))
      else (register, uncomputation_controls))"
  by pat_completeness auto
termination
  by (relation "measure (\<lambda>(target, temp_mask, register, controls). temp_mask)")
     (simp_all add: clear_lowest_bit_less)

declare ladder.simps [simp del]

text \<open>
  \<open>PPR._compute\<close>. The result is the exception raised, if any, and the register
  afterwards.
\<close>

definition PPR_compute :: "theta \<Rightarrow> nat \<Rightarrow> nat \<Rightarrow> gate list \<Rightarrow> error option \<times> gate list" where
  "PPR_compute theta x_mask z_mask register =
     (let qubits_in_masks = x_mask OR z_mask in
      if qubits_in_masks = 0 then (None, register)
      else
        (case standardize_angle theta of
           Inl e \<Rightarrow> (Some e, register)
         | Inr angle_deg \<Rightarrow>
             (let y_mask = x_mask AND z_mask;
                  register = (if y_mask \<noteq> 0 then register @ [S_inv y_mask] else register);
                  register = (if x_mask \<noteq> 0 then register @ [Had x_mask] else register);
                  target = bit_length qubits_in_masks - 1;
                  controls_mask = nat (int qubits_in_masks AND NOT (push_bit target 1));
                  (register, uncomputation_controls) = ladder target controls_mask register [];
                  register = register @ [Rz target (2 * angle_deg)];
                  register = foldl (\<lambda>reg control_idx. reg @ [CNOT control_idx target])
                               register (rev uncomputation_controls);
                  register = (if x_mask \<noteq> 0 then register @ [Had x_mask] else register);
                  register = (if y_mask \<noteq> 0 then register @ [S_gate y_mask] else register)
              in (None, register))))"

text \<open>
  For the proofs about the ladder: the indices of the set bits of a mask, lowest first,
  as the loop of \<open>ladder\<close> visits them.
\<close>

function control_indices :: "nat \<Rightarrow> nat list" where
  "control_indices temp_mask =
     (if temp_mask \<noteq> 0 then
        (let lsb = nat (int temp_mask AND - int temp_mask)
         in (bit_length lsb - 1) # control_indices (temp_mask XOR lsb))
      else [])"
  by pat_completeness auto
termination
  by (relation "measure (\<lambda>temp_mask. temp_mask)") (simp_all add: clear_lowest_bit_less)

declare control_indices.simps [simp del]

text \<open>
  The normalisation in the specification's words, to compare \<open>standardize_angle\<close> with:
  "one canonical radian value", a plain number read by the magnitude heuristic.
\<close>

definition canonical_radians :: "theta \<Rightarrow> real" where
  "canonical_radians theta =
     (case theta of
        Tagged (Deg d) \<Rightarrow> d * pi / 180
      | Tagged (Rad r) \<Rightarrow> r
      | Frac a b \<Rightarrow> pi * real_of_int a / real_of_int b
      | Raw t \<Rightarrow> if \<bar>t\<bar> > 2 * pi then t * pi / 180 else t)"

section \<open>The Trotter scheduler (trotter/trotter.py)\<close>

text \<open>
  Modelled from the spec: \<open>PauliSum\<close> belongs to an external library; it is the ordered
  sequence of terms \<open>[coefficient, PauliMask]\<close>, read through \<open>len\<close>,
  \<open>get_coefficient(i)\<close> and \<open>get_mask(i)\<close>, and extended by \<open>append\<close>.
\<close>

type_synonym PauliSum = "(real \<times> PauliMask) list"

definition get_coefficient :: "PauliSum \<Rightarrow> nat \<Rightarrow> real" where
  "get_coefficient hamiltonian i = fst (hamiltonian ! i)"

definition get_mask :: "PauliSum \<Rightarrow> nat \<Rightarrow> PauliMask" where
  "get_mask hamiltonian i = snd (hamiltonian ! i)"

text \<open>
  The scheduler receives \<open>ppr_instance\<close> from its caller and only calls
  \<open>ppr_instance.compute(qubits, theta=..., x_mask=..., z_mask=...)\<close>: the model takes
  that method as the parameter \<open>compute\<close>, over any register type. An exception raised
  by a call ends the run and leaves the register as it then is.

  The body of both \<open>for i in ...\<close> loops, over the list of indices still to visit.
\<close>

type_synonym 's ppr = "real \<Rightarrow> nat \<Rightarrow> nat \<Rightarrow> 's \<Rightarrow> error option \<times> 's"

fun pprs_loop :: "'s ppr \<Rightarrow> PauliSum \<Rightarrow> real \<Rightarrow> nat list \<Rightarrow> 's \<Rightarrow> error option \<times> 's" where
  "pprs_loop compute hamiltonian time_step [] qubits = (None, qubits)"
| "pprs_loop compute hamiltonian time_step (i # rest) qubits =
     (let coeff = get_coefficient hamiltonian i;
          mask = get_mask hamiltonian i;
          x_mask = fst mask;
          z_mask = snd mask;
          qubits_in_masks = x_mask OR z_mask
      in if qubits_in_masks = 0 then pprs_loop compute hamiltonian time_step rest qubits
         else
           (let theta = coeff * time_step in
            case compute theta x_mask z_mask qubits of
              (Some e, qubits') \<Rightarrow> (Some e, qubits')
            | (None, qubits') \<Rightarrow> pprs_loop compute hamiltonian time_step rest qubits'))"

text \<open>\<open>range(len(hamiltonian))\<close> and \<open>range(len(hamiltonian) - 1, -1, -1)\<close>.\<close>

definition apply_hamiltonian_as_pprs ::
  "'s ppr \<Rightarrow> PauliSum \<Rightarrow> real \<Rightarrow> 's \<Rightarrow> error option \<times> 's" where
  "apply_hamiltonian_as_pprs compute hamiltonian time_step qubits =
     pprs_loop compute hamiltonian time_step [0 ..< length hamiltonian] qubits"

definition apply_hamiltonian_as_pprs_reversed ::
  "'s ppr \<Rightarrow> PauliSum \<Rightarrow> real \<Rightarrow> 's \<Rightarrow> error option \<times> 's" where
  "apply_hamiltonian_as_pprs_reversed compute hamiltonian time_step qubits =
     pprs_loop compute hamiltonian time_step (rev [0 ..< length hamiltonian]) qubits"

text \<open>\<open>for _ in range(k)\<close> around a body that may raise.\<close>

fun repeat_steps :: "nat \<Rightarrow> ('s \<Rightarrow> error option \<times> 's) \<Rightarrow> 's \<Rightarrow> error option \<times> 's" where
  "repeat_steps 0 body qubits = (None, qubits)"
| "repeat_steps (Suc k) body qubits =
     (case body qubits of
        (Some e, qubits') \<Rightarrow> (Some e, qubits')
      | (None, qubits') \<Rightarrow> repeat_steps k body qubits')"

text \<open>
  \<open>time / num_trotter_steps\<close> raises on a zero step count; a negative count gives an
  empty \<open>range\<close>.
\<close>

definition first_order_trotter ::
  "'s ppr \<Rightarrow> PauliSum \<Rightarrow> real \<Rightarrow> int \<Rightarrow> 's \<Rightarrow> error option \<times> 's" where
  "first_order_trotter compute hamiltonian time num_trotter_steps qubits =
     (if num_trotter_steps = 0 then (Some ZeroDivisionError, qubits)
      else
        (let dt = time / real_of_int num_trotter_steps in
         repeat_steps (nat num_trotter_steps)
           (\<lambda>q. apply_hamiltonian_as_pprs compute hamiltonian dt q) qubits))"

definition second_order_trotter ::
  "'s ppr \<Rightarrow> PauliSum \<Rightarrow> real \<Rightarrow> int \<Rightarrow> 's \<Rightarrow> error option \<times> 's" where
  "second_order_trotter compute hamiltonian time num_trotter_steps qubits =
     (if 2 * num_trotter_steps = 0 then (Some ZeroDivisionError, qubits)
      else
        (let dt = time / real_of_int (2 * num_trotter_steps) in
         repeat_steps (nat num_trotter_steps)
           (\<lambda>q. case apply_hamiltonian_as_pprs compute hamiltonian dt q of
                   (Some e, q') \<Rightarrow> (Some e, q')
                 | (None, q') \<Rightarrow> apply_hamiltonian_as_pprs_reversed compute hamiltonian dt q')
           qubits))"

definition trotter_evolution ::
  "'s ppr \<Rightarrow> PauliSum \<Rightarrow> real \<Rightarrow> int \<Rightarrow> int \<Rightarrow> 's \<Rightarrow> error option \<times> 's" where
  "trotter_evolution compute hamiltonian time num_trotter_steps order qubits =
     (if order = 1 then first_order_trotter compute hamiltonian time num_trotter_steps qubits
      else if order = 2 then
        second_order_trotter compute hamiltonian time num_trotter_steps qubits
      else (Some (ValueError (Order_must_be_1_or_2 order)), qubits))"

text \<open>
  The schedule in the specification's words, to compare the loops with: the calls of one
  pass are the non-identity terms in the order given, each with angle
  \<open>coefficient * dt\<close>; running a list of calls makes them one after the other and stops
  at the first that raises.
\<close>

definition pass_calls :: "real \<Rightarrow> PauliSum \<Rightarrow> (real \<times> nat \<times> nat) list" where
  "pass_calls dt terms =
     map (\<lambda>(coeff, x_mask, z_mask). (coeff * dt, x_mask, z_mask))
       (filter (\<lambda>(coeff, x_mask, z_mask). \<not> (x_mask = 0 \<and> z_mask = 0)) terms)"

fun run_calls :: "'s ppr \<Rightarrow> (real \<times> nat \<times> nat) list \<Rightarrow> 's \<Rightarrow> error option \<times> 's" where
  "run_calls compute [] qubits = (None, qubits)"
| "run_calls compute ((theta, x_mask, z_mask) # calls) qubits =
     (case compute theta x_mask z_mask qubits of
        (Some e, qubits') \<Rightarrow> (Some e, qubits')
      | (None, qubits') \<Rightarrow> run_calls compute calls qubits')"

section \<open>The Hamiltonian builder (jw\_transform/hamiltonian.py)\<close>

text \<open>
  Python's \<open>itertools.combinations(iterable, r)\<close>: the \<open>r\<close>-element subsequences of the
  input, in the order of their positions.
\<close>

fun combinations :: "'a list \<Rightarrow> nat \<Rightarrow> 'a list list" where
  "combinations xs 0 = [[]]"
| "combinations [] (Suc r) = []"
| "combinations (x # xs) (Suc r) = map ((#) x) (combinations xs r) @ combinations xs (Suc r)"

text \<open>
  Modelled from the spec: the product \<open>pauli_op1[1] * pauli_op2[1]\<close> of two
  \<open>PauliMask\<close> objects is an operation of the external library; the combined mask is
  the Pauli-operator product of the two masks, \<open>x = x1 XOR x2\<close> and \<open>z = z1 XOR z2\<close>.
\<close>

definition PauliMask_mul :: "PauliMask \<Rightarrow> PauliMask \<Rightarrow> PauliMask" where
  "PauliMask_mul m1 m2 = (fst m1 XOR fst m2, snd m1 XOR snd m2)"

text \<open>
  The process-wide random generator of numpy is state of type \<open>'g\<close>, passed in and
  returned. Its two operations are parameters: \<open>seed s\<close> is the state after
  \<open>np.random.seed(s)\<close> has accepted \<open>s\<close>, and \<open>normal loc scale g\<close> is the value of
  \<open>np.random.normal(loc, scale, size = 1)[0]\<close> drawn in state \<open>g\<close>, with the state after
  the draw. numpy checks the arguments first: \<open>np.random.seed\<close> raises \<open>ValueError\<close>
  unless the seed lies between \<open>0\<close> and \<open>2**32 - 1\<close>, and \<open>np.random.normal\<close> raises
  \<open>ValueError\<close> when the scale is negative; neither then touches the generator.
\<close>

definition np_random_seed :: "(int \<Rightarrow> 'g) \<Rightarrow> int \<Rightarrow> error + 'g" where
  "np_random_seed seed s =
     (if 0 \<le> s \<and> s \<le> 2 ^ 32 - 1 then Inr (seed s)
      else Inl (ValueError Seed_out_of_range))"

definition np_random_normal ::
  "(real \<Rightarrow> real \<Rightarrow> 'g \<Rightarrow> real \<times> 'g) \<Rightarrow> real \<Rightarrow> real \<Rightarrow> 'g \<Rightarrow> error + real \<times> 'g" where
  "np_random_normal normal loc scale g =
     (if scale < 0 then Inl (ValueError Scale_negative) else Inr (normal loc scale g))"

text \<open>
  The loop \<open>for (ind, tup) in enumerate(combinations(range(2*n), 4))\<close>. \<open>if coefs:\<close>
  holds for a non-empty list only; \<open>coefs[ind]\<close> raises when \<open>ind\<close> is out of range.
\<close>

fun hamil_loop ::
  "(real \<Rightarrow> real \<Rightarrow> 'g \<Rightarrow> real \<times> 'g) \<Rightarrow> real \<Rightarrow> real list option \<Rightarrow> (nat \<times> nat list) list
     \<Rightarrow> PauliSum \<Rightarrow> 'g \<Rightarrow> (error + PauliSum) \<times> 'g" where
  "hamil_loop normal scale coefs [] hamil g = (Inr hamil, g)"
| "hamil_loop normal scale coefs ((ind, tup) # rest) hamil g =
     (let pauli_op1 = SYK_pair_to_mask (tup ! 0) (tup ! 1);
          pauli_op2 = SYK_pair_to_mask (tup ! 2) (tup ! 3)
      in case coefs of
           Some (c # cs) \<Rightarrow>
             if ind < length (c # cs) then
               (let coef = (c # cs) ! ind in
                hamil_loop normal scale coefs rest
                  (hamil @ [(1 / 96 * coef * Re (fst pauli_op1 * fst pauli_op2),
                             PauliMask_mul (snd pauli_op1) (snd pauli_op2))]) g)
             else (Inl IndexError, g)
         | _ \<Rightarrow>
             (case np_random_normal normal 0 scale g of
                Inl e \<Rightarrow> (Inl e, g)
              | Inr (coef, g') \<Rightarrow>
                  hamil_loop normal scale coefs rest
                    (hamil @ [(1 / 96 * coef * Re (fst pauli_op1 * fst pauli_op2),
                               PauliMask_mul (snd pauli_op1) (snd pauli_op2))]) g'))"

text \<open>
  \<open>SYK_hamil\<close>. The generator is seeded first, when a seed is given; then the quotient
  \<open>6/(2*n)**3\<close> of Python integers raises on a zero divisor.
\<close>

definition SYK_hamil ::
  "(int \<Rightarrow> 'g) \<Rightarrow> (real \<Rightarrow> real \<Rightarrow> 'g \<Rightarrow> real \<times> 'g) \<Rightarrow> nat \<Rightarrow> real \<Rightarrow> real list option
     \<Rightarrow> int option \<Rightarrow> 'g \<Rightarrow> (error + PauliSum) \<times> 'g" where
  "SYK_hamil seed normal n J coefs random_seed g =
     (case (case random_seed of Some s \<Rightarrow> np_random_seed seed s | None \<Rightarrow> Inr g) of
        Inl e \<Rightarrow> (Inl e, g)
      | Inr g \<Rightarrow>
          if (2 * n) ^ 3 = 0 then (Inl ZeroDivisionError, g)
          else
            (let scale = sqrt (6 / real ((2 * n) ^ 3)) * J * 24;
                 hamil = []
             in hamil_loop normal scale coefs (List.enumerate 0 (combinations [0 ..< 2 * n] 4))
                  hamil g))"

text \<open>
  The builder's output in the specification's words, to compare the loop with: the values
  of \<open>k\<close> successive draws, and the term of one 4-tuple, with coefficient
  \<open>(1/96) * value * real(phase1 * phase2)\<close> and the two pair masks combined by XOR.
\<close>

fun draws :: "(real \<Rightarrow> real \<Rightarrow> 'g \<Rightarrow> real \<times> 'g) \<Rightarrow> real \<Rightarrow> nat \<Rightarrow> 'g \<Rightarrow> real list" where
  "draws normal scale 0 g = []"
| "draws normal scale (Suc k) g =
     (let (coef, g') = normal 0 scale g in coef # draws normal scale k g')"

definition syk_term :: "real \<Rightarrow> nat list \<Rightarrow> real \<times> PauliMask" where
  "syk_term v tup =
     (let (phase1, (x1, z1)) = SYK_pair_to_mask (tup ! 0) (tup ! 1);
          (phase2, (x2, z2)) = SYK_pair_to_mask (tup ! 2) (tup ! 3)
      in ((1 / 96) * v * Re (phase1 * phase2), (x1 XOR x2, z1 XOR z2)))"

text \<open>The seeds with which the builder gets past \<open>np.random.seed\<close>: none, or one in range.\<close>

definition seed_in_range :: "int option \<Rightarrow> bool" where
  "seed_in_range random_seed =
     (case random_seed of None \<Rightarrow> True | Some s \<Rightarrow> 0 \<le> s \<and> s \<le> 2 ^ 32 - 1)"

section \<open>The Pauli string codec (ppr\_utils.py)\<close>

text \<open>
  A Python string is a list of characters; the model covers the code points below 256.
  \<open>isspace\<close> is \<open>str.isspace\<close> on one such character, \<open>strip_ws\<close> is \<open>str.strip()\<close>
  and \<open>split_ws\<close> is \<open>str.split()\<close> without arguments: the maximal runs of
  non-whitespace characters, in order.
\<close>

definition isspace :: "char \<Rightarrow> bool" where
  "isspace c = (c \<in> set [CHR 0x09, CHR 0x0A, CHR 0x0B, CHR 0x0C, CHR 0x0D, CHR 0x1C, CHR 0x1D,
                          CHR 0x1E, CHR 0x1F, CHR 0x20, CHR 0x85, CHR 0xA0])"

definition strip_ws :: "string \<Rightarrow> string" where
  "strip_ws s = rev (dropWhile isspace (rev (dropWhile isspace s)))"

fun split_from :: "string \<Rightarrow> string \<Rightarrow> string list" where
  "split_from [] word = (if word = [] then [] else [word])"
| "split_from (c # cs) word =
     (if isspace c then (if word = [] then split_from cs [] else word # split_from cs [])
      else split_from cs (word @ [c]))"

definition split_ws :: "string \<Rightarrow> string list" where
  "split_ws s = split_from s []"

text \<open>
  \<open>int(text)\<close> on a token's tail, which holds no whitespace: an optional sign, then
  decimal digits, single underscores allowed between digits; anything else raises
  \<open>ValueError\<close>. \<open>digit_due\<close> says that the next character has to be a digit.
\<close>

definition isdigit :: "char \<Rightarrow> bool" where
  "isdigit c = (c \<in> set ''0123456789'')"

fun int_digits :: "bool \<Rightarrow> string \<Rightarrow> int \<Rightarrow> int option" where
  "int_digits digit_due [] acc = (if digit_due then None else Some acc)"
| "int_digits digit_due (c # cs) acc =
     (if isdigit c then int_digits False cs (10 * acc + (int (of_char c) - 48))
      else if c = CHR ''_'' \<and> \<not> digit_due then int_digits True cs acc
      else None)"

definition py_int :: "string \<Rightarrow> error + int" where
  "py_int s =
     (case (case s of
              [] \<Rightarrow> None
            | c # cs \<Rightarrow>
                if c = CHR ''-'' then map_option uminus (int_digits True cs 0)
                else if c = CHR ''+'' then int_digits True cs 0
                else int_digits True (c # cs) 0) of
        None \<Rightarrow> Inl (ValueError (Invalid_literal_for_int s))
      | Some k \<Rightarrow> Inr k)"

text \<open>\<open>mask |= (1 << qubit_idx)\<close>; a negative shift count raises \<open>ValueError\<close>.\<close>

definition or_shift :: "nat \<Rightarrow> int \<Rightarrow> error + nat" where
  "or_shift m qubit_idx =
     (if qubit_idx < 0 then Inl (ValueError Negative_shift_count)
      else Inr (m OR push_bit (nat qubit_idx) 1))"

text \<open>
  The loop \<open>for part in parts\<close> of the format \<open>"X0 Y1 Z2"\<close>. \<open>part[0]\<close> raises on an
  empty token (\<open>split\<close> yields none); the two \<open>if\<close> statements run in the source's
  order.
\<close>

fun token_loop :: "string list \<Rightarrow> nat \<Rightarrow> nat \<Rightarrow> error + nat \<times> nat" where
  "token_loop [] x_mask z_mask = Inr (x_mask, z_mask)"
| "token_loop (part # parts) x_mask z_mask =
     (case part of
        [] \<Rightarrow> Inl IndexError
      | pauli # digits \<Rightarrow>
          (case py_int digits of
             Inl e \<Rightarrow> Inl e
           | Inr qubit_idx \<Rightarrow>
               (case (if pauli = CHR ''X'' \<or> pauli = CHR ''Y'' then or_shift x_mask qubit_idx
                      else Inr x_mask) of
                  Inl e \<Rightarrow> Inl e
                | Inr x_mask \<Rightarrow>
                    (case (if pauli = CHR ''Z'' \<or> pauli = CHR ''Y'' then or_shift z_mask qubit_idx
                           else Inr z_mask) of
                       Inl e \<Rightarrow> Inl e
                     | Inr z_mask \<Rightarrow> token_loop parts x_mask z_mask))))"

text \<open>The loop \<open>for i, pauli in enumerate(reversed(pauli_string))\<close> of the format \<open>"XYZI"\<close>.\<close>

fun dense_loop :: "(nat \<times> char) list \<Rightarrow> nat \<Rightarrow> nat \<Rightarrow> nat \<times> nat" where
  "dense_loop [] x_mask z_mask = (x_mask, z_mask)"
| "dense_loop ((i, pauli) # rest) x_mask z_mask =
     (let x_mask = (if pauli = CHR ''X'' \<or> pauli = CHR ''Y'' then x_mask OR push_bit i 1 else x_mask);
          z_mask = (if pauli = CHR ''Z'' \<or> pauli = CHR ''Y'' then z_mask OR push_bit i 1 else z_mask)
      in dense_loop rest x_mask z_mask)"

definition pauli_string_to_masks :: "string \<Rightarrow> error + nat \<times> nat" where
  "pauli_string_to_masks pauli_string =
     (if CHR '' '' \<in> set pauli_string then token_loop (split_ws (strip_ws pauli_string)) 0 0
      else Inr (dense_loop (List.enumerate 0 (rev pauli_string)) 0 0))"

text \<open>
  For the statement about the token format: the tokens on which the loop raises. The
  index text is not an integer for \<open>int()\<close>, or the letter is one of X, Y, Z and the
  index is negative. (The empty token, which \<open>split\<close> never yields, raises too.)
\<close>

definition token_raises :: "string \<Rightarrow> bool" where
  "token_raises part =
     (case part of
        [] \<Rightarrow> True
      | pauli # digits \<Rightarrow>
          (case py_int digits of
             Inl e \<Rightarrow> True
           | Inr qubit_idx \<Rightarrow> pauli \<in> set ''XYZ'' \<and> qubit_idx < 0))"

section \<open>Properties of the pair operator\<close>

text \<open>
  C1. For distinct indices \<open>p\<close> and \<open>q\<close>, \<open>SYK_pair_to_mask p q\<close> and
  \<open>SYK_pair_to_mask q p\<close> carry the same x mask and the same z mask, and their phases
  are exact negations of each other.
\<close>

theorem SYK_pair_to_mask_antisymmetric:
  assumes "p \<noteq> q"
  shows "fst (snd (SYK_pair_to_mask p q)) = fst (snd (SYK_pair_to_mask q p))
       \<and> snd (snd (SYK_pair_to_mask p q)) = snd (snd (SYK_pair_to_mask q p))
       \<and> fst (SYK_pair_to_mask p q) = - fst (SYK_pair_to_mask q p)"
proof (cases "p < q")
  case True
  then have "\<not> q < p" by simp
  with True show ?thesis
    by (simp add: SYK_pair_to_mask_def Let_def)
next
  case False
  with assms have "q < p" by simp
  then have "\<not> p < q" by simp
  with \<open>q < p\<close> show ?thesis
    by (simp add: SYK_pair_to_mask_def Let_def)
qed

theorem SYK_pair_to_mask_antisymmetric_witness:
  "(2::nat) \<noteq> 5
   \<and> SYK_pair_to_mask 2 5 = (- \<i>, (6, 6))
   \<and> SYK_pair_to_mask 5 2 = (\<i>, (6, 6))
   \<and> fst (SYK_pair_to_mask 2 5) = - fst (SYK_pair_to_mask 5 2)"
  using SYK_pair_to_mask_antisymmetric [of 2 5]
  by (simp add: SYK_pair_to_mask_def Let_def)

text \<open>
  C5. When \<open>p \<noteq> q\<close> share a qubit (\<open>p div 2 = q div 2\<close>), the result has x mask \<open>0\<close>,
  z mask the single bit \<open>q div 2\<close>, and phase \<open>+i\<close> when \<open>q > p\<close> and \<open>-i\<close> when
  \<open>q < p\<close>; in particular the pair \<open>(0, 1)\<close> gives \<open>(+i, x = 0, z = 1)\<close> and the pair
  \<open>(1, 0)\<close> gives \<open>(-i, x = 0, z = 1)\<close>.
\<close>

theorem SYK_pair_to_mask_same_qubit:
  "(p \<noteq> q \<and> p div 2 = q div 2 \<longrightarrow>
      SYK_pair_to_mask p q = ((if q > p then \<i> else - \<i>), (0, 2 ^ (q div 2))))
   \<and> SYK_pair_to_mask 0 1 = (\<i>, (0, 1))
   \<and> SYK_pair_to_mask 1 0 = (- \<i>, (0, 1))"
  by (simp add: SYK_pair_to_mask_def)

theorem SYK_pair_to_mask_same_qubit_witness:
  "(6::nat) \<noteq> 7 \<and> (6::nat) div 2 = 7 div 2
   \<and> SYK_pair_to_mask 6 7 = (\<i>, (0, 8))
   \<and> SYK_pair_to_mask 7 6 = (- \<i>, (0, 8))"
  using SYK_pair_to_mask_same_qubit [of 6 7] SYK_pair_to_mask_same_qubit [of 7 6]
  by simp


section \<open>Properties of the PPR synthesizer\<close>

lemma ladder_eq:
  "ladder target temp_mask register controls
     = (register @ map (\<lambda>c. CNOT c target) (control_indices temp_mask),
        controls @ control_indices temp_mask)"
proof (induction target temp_mask register controls rule: ladder.induct)
  case (1 target temp_mask register controls)
  show ?case
  proof (cases "temp_mask = 0")
    case True
    then show ?thesis
      by (simp add: ladder.simps control_indices.simps)
  next
    case False
    with 1 [OF False refl refl] show ?thesis
      by (subst ladder.simps, subst (1 2) control_indices.simps) (simp add: Let_def)
  qed
qed

lemma foldl_CNOT:
  "foldl (\<lambda>reg c. reg @ [CNOT c target]) register cs = register @ map (\<lambda>c. CNOT c target) cs"
  by (induction cs arbitrary: register) simp_all

lemma PPR_compute_shape:
  assumes "x_mask OR z_mask \<noteq> 0" and "standardize_angle theta = Inr angle_deg"
  shows "PPR_compute theta x_mask z_mask register =
           (let y_mask = x_mask AND z_mask;
                target = bit_length (x_mask OR z_mask) - 1;
                controls = control_indices (nat (int (x_mask OR z_mask) AND NOT (push_bit target 1)))
            in (None, register
              @ (if y_mask \<noteq> 0 then [S_inv y_mask] else [])
              @ (if x_mask \<noteq> 0 then [Had x_mask] else [])
              @ map (\<lambda>c. CNOT c target) controls
              @ [Rz target (2 * angle_deg)]
              @ map (\<lambda>c. CNOT c target) (rev controls)
              @ (if x_mask \<noteq> 0 then [Had x_mask] else [])
              @ (if y_mask \<noteq> 0 then [S_gate y_mask] else [])))"
  using assms by (simp add: PPR_compute_def Let_def ladder_eq foldl_CNOT rev_map)

lemma PPR_compute_raises:
  assumes "x_mask OR z_mask \<noteq> 0" and "standardize_angle theta = Inl e"
  shows "PPR_compute theta x_mask z_mask register = (Some e, register)"
  using assms by (simp add: PPR_compute_def)

text \<open>
  C2. On a register with qubits 0 and 1, with \<open>x_mask = 0b11\<close>, \<open>z_mask = 0b00\<close> and an
  angle of 90 degrees (given as the plain number 90 or as a value tagged in degrees), the
  operations issued are exactly: Hadamard on the mask \<open>0b11\<close> (qubits 0 and 1),
  controlled-NOT with control 0 and target 1, Z-rotation of qubit 1 by 180,
  controlled-NOT with control 0 and target 1, Hadamard on the mask \<open>0b11\<close>, in that order.
\<close>

theorem PPR_compute_scenario_A:
  "PPR_compute (Raw 90) 3 0 register
     = (None, register @ [Had 3, CNOT 0 1, Rz 1 180, CNOT 0 1, Had 3])
   \<and> PPR_compute (Tagged (Deg 90)) 3 0 register
     = (None, register @ [Had 3, CNOT 0 1, Rz 1 180, CNOT 0 1, Had 3])"
  using pi_less_4
  by (simp add: PPR_compute_def standardize_angle_def bit_length.simps ladder.simps Let_def)

text \<open>
  C4, as the claim states it, fails: the value the synthesizer normalises to is in
  degrees, not radians. For the input "1 radian" the normalised value is \<open>180 / \<pi>\<close>
  and the rotation issued is \<open>Rz\<close> by \<open>360 / \<pi>\<close>, not by twice the canonical radian
  value \<open>1\<close>.
\<close>

theorem PPR_canonical_radian_counterexample:
  "standardize_angle (Tagged (Rad 1)) \<noteq> Inr (canonical_radians (Tagged (Rad 1)))
   \<and> PPR_compute (Tagged (Rad 1)) 1 0 [] = (None, [Had 1, Rz 0 (360 / pi), Had 1])
   \<and> 360 / pi \<noteq> 2 * canonical_radians (Tagged (Rad 1))"
proof -
  have lt: "2 * pi < 8" using pi_less_4 by simp
  have r: "canonical_radians (Tagged (Rad 1)) = 1"
    by (simp add: canonical_radians_def)
  have s: "standardize_angle (Tagged (Rad 1)) = Inr (180 / pi)"
    by (simp add: standardize_angle_def rad2deg_def)
  have a: "standardize_angle (Tagged (Rad 1)) \<noteq> Inr (canonical_radians (Tagged (Rad 1)))"
    unfolding r s using lt by (auto simp add: divide_eq_eq)
  have b: "PPR_compute (Tagged (Rad 1)) 1 0 [] = (None, [Had 1, Rz 0 (360 / pi), Had 1])"
    by (simp add: PPR_compute_def s bit_length.simps ladder.simps Let_def)
  have c: "360 / pi \<noteq> 2 * canonical_radians (Tagged (Rad 1))"
    unfolding r using lt by (auto simp add: divide_eq_eq)
  from a b c show ?thesis by blast
qed

text \<open>
  C4, amended. Before any operation is issued, the synthesizer normalises each of the
  three angle shapes to one value in degrees: a unit-tagged value to its magnitude in
  degrees, a pair \<open>(a, b)\<close> with \<open>b \<noteq> 0\<close> to \<open>rad2deg(\<pi> a / b)\<close>, which is \<open>180 a / b\<close>
  in exact arithmetic, and a plain number \<open>t\<close> to \<open>t\<close> itself when \<open>|t| > 2\<pi>\<close> and to
  \<open>180 t / \<pi>\<close> otherwise. Every pair \<open>(a, 0)\<close> raises \<open>ZeroDivisionError\<close>, and on
  non-zero masks it does so before anything is issued. On non-zero masks, when the
  normalisation raises nothing is issued; otherwise the single rotation issued is \<open>Rz\<close>
  on the target by twice the normalised value, between the ladder and its mirror. Hence
  two angles with the same normalised value leave the same register.
\<close>

theorem PPR_angle_standardized_in_degrees:
  "standardize_angle (Tagged (Deg d)) = Inr d
   \<and> standardize_angle (Tagged (Rad r)) = Inr (r * 180 / pi)
   \<and> (b \<noteq> 0 \<longrightarrow> standardize_angle (Frac a b) = Inr (180 * real_of_int a / real_of_int b))
   \<and> standardize_angle (Frac a 0) = Inl ZeroDivisionError
   \<and> standardize_angle (Raw t) = Inr (if \<bar>t\<bar> > 2 * pi then t else t * 180 / pi)
   \<and> (x_mask OR z_mask \<noteq> 0 \<longrightarrow>
        PPR_compute (Frac a 0) x_mask z_mask register = (Some ZeroDivisionError, register))
   \<and> (x_mask OR z_mask \<noteq> 0 \<and> standardize_angle theta = Inl e \<longrightarrow>
        PPR_compute theta x_mask z_mask register = (Some e, register))
   \<and> (x_mask OR z_mask \<noteq> 0 \<and> standardize_angle theta = Inr angle_deg \<longrightarrow>
        PPR_compute theta x_mask z_mask register =
          (let y_mask = x_mask AND z_mask;
               target = bit_length (x_mask OR z_mask) - 1;
               controls = control_indices (nat (int (x_mask OR z_mask) AND NOT (push_bit target 1)))
           in (None, register
             @ (if y_mask \<noteq> 0 then [S_inv y_mask] else [])
             @ (if x_mask \<noteq> 0 then [Had x_mask] else [])
             @ map (\<lambda>c. CNOT c target) controls
             @ [Rz target (2 * angle_deg)]
             @ map (\<lambda>c. CNOT c target) (rev controls)
             @ (if x_mask \<noteq> 0 then [Had x_mask] else [])
             @ (if y_mask \<noteq> 0 then [S_gate y_mask] else []))))
   \<and> (standardize_angle theta = standardize_angle theta' \<longrightarrow>
        PPR_compute theta x_mask z_mask register = PPR_compute theta' x_mask z_mask register)"
proof -
  have 1: "standardize_angle (Tagged (Deg d)) = Inr d"
    by (simp add: standardize_angle_def)
  have 2: "standardize_angle (Tagged (Rad r)) = Inr (r * 180 / pi)"
    by (simp add: standardize_angle_def rad2deg_def)
  have 3: "b \<noteq> 0 \<longrightarrow> standardize_angle (Frac a b) = Inr (180 * real_of_int a / real_of_int b)"
    by (simp add: standardize_angle_def rad2deg_def)
  have 4: "standardize_angle (Frac a 0) = Inl ZeroDivisionError"
    by (simp add: standardize_angle_def)
  have 5: "standardize_angle (Raw t) = Inr (if \<bar>t\<bar> > 2 * pi then t else t * 180 / pi)"
    by (simp add: standardize_angle_def rad2deg_def)
  have 6: "x_mask OR z_mask \<noteq> 0 \<longrightarrow>
        PPR_compute (Frac a 0) x_mask z_mask register = (Some ZeroDivisionError, register)"
    using PPR_compute_raises [OF _ 4, of x_mask z_mask register] by blast
  have 9: "standardize_angle theta = standardize_angle theta' \<longrightarrow>
        PPR_compute theta x_mask z_mask register = PPR_compute theta' x_mask z_mask register"
  proof
    assume same: "standardize_angle theta = standardize_angle theta'"
    show "PPR_compute theta x_mask z_mask register = PPR_compute theta' x_mask z_mask register"
      by (simp only: PPR_compute_def same)
  qed
  from 1 2 3 4 5 6 9 PPR_compute_raises [of x_mask z_mask theta e register]
    PPR_compute_shape [of x_mask z_mask theta angle_deg register]
  show ?thesis by blast
qed

theorem PPR_angle_standardized_in_degrees_witness:
  "(2::int) \<noteq> 0
   \<and> standardize_angle (Frac 1 2) = Inr 90
   \<and> standardize_angle (Frac 1 2) = standardize_angle (Tagged (Deg 90))
   \<and> PPR_compute (Frac 1 2) 3 0 [] = PPR_compute (Tagged (Deg 90)) 3 0 []
   \<and> (3::nat) OR 0 \<noteq> 0
   \<and> standardize_angle (Frac 2 0) = Inl ZeroDivisionError
   \<and> PPR_compute (Frac 2 0) 3 0 [Had 1] = (Some ZeroDivisionError, [Had 1])"
proof -
  note inst = PPR_angle_standardized_in_degrees
    [where d = 90 and r = 0 and b = 2 and a = 1 and t = 0 and x_mask = 3 and z_mask = 0
       and theta = "Frac 1 2" and e = ZeroDivisionError and register = "[]" and angle_deg = 90
       and theta' = "Tagged (Deg 90)"]
  note inst0 = PPR_angle_standardized_in_degrees
    [where d = 90 and r = 0 and b = 2 and a = 2 and t = 0 and x_mask = 3 and z_mask = 0
       and theta = "Frac 2 0" and e = ZeroDivisionError and register = "[Had 1]" and angle_deg = 0
       and theta' = "Tagged (Deg 90)"]
  have frac: "standardize_angle (Frac 1 2) = Inr 90"
    using inst by simp
  have deg: "standardize_angle (Tagged (Deg 90)) = Inr 90"
    by (simp add: standardize_angle_def)
  have eq: "standardize_angle (Frac 1 2) = standardize_angle (Tagged (Deg 90))"
    using frac deg by simp
  have same: "PPR_compute (Frac 1 2) 3 0 [] = PPR_compute (Tagged (Deg 90)) 3 0 []"
    using inst eq by blast
  have masks: "(3::nat) OR 0 \<noteq> 0" by simp
  have zero: "standardize_angle (Frac 2 0) = Inl ZeroDivisionError"
    using inst0 by blast
  have raises: "PPR_compute (Frac 2 0) 3 0 [Had 1] = (Some ZeroDivisionError, [Had 1])"
    using inst0 masks by blast
  from frac eq same masks zero raises show ?thesis by simp
qed

section \<open>Properties of the Trotter scheduler\<close>

lemma run_calls_append:
  "run_calls compute (cs @ ds) q =
     (case run_calls compute cs q of
        (Some e, q') \<Rightarrow> (Some e, q')
      | (None, q') \<Rightarrow> run_calls compute ds q')"
  by (induction cs arbitrary: q) (auto split: prod.splits option.splits)

lemma pprs_loop_run_calls:
  "\<forall>i \<in> set idxs. i < length H \<Longrightarrow>
   pprs_loop compute H dt idxs q = run_calls compute (pass_calls dt (map (\<lambda>i. H ! i) idxs)) q"
proof (induction idxs arbitrary: q)
  case Nil
  then show ?case by (simp add: pass_calls_def)
next
  case (Cons i rest)
  then show ?case
    by (auto simp add: pass_calls_def get_coefficient_def get_mask_def Let_def or_eq_0_iff
        split: prod.splits option.splits)
qed

lemma forward_run_calls:
  "apply_hamiltonian_as_pprs compute H dt q = run_calls compute (pass_calls dt H) q"
  by (simp add: apply_hamiltonian_as_pprs_def pprs_loop_run_calls map_nth)

lemma backward_run_calls:
  "apply_hamiltonian_as_pprs_reversed compute H dt q
     = run_calls compute (pass_calls dt (rev H)) q"
  by (simp add: apply_hamiltonian_as_pprs_reversed_def pprs_loop_run_calls map_nth
      rev_map [symmetric])

lemma repeat_run_calls:
  "repeat_steps k (run_calls compute cs) q = run_calls compute (concat (replicate k cs)) q"
  by (induction k arbitrary: q) (auto simp add: run_calls_append split: prod.splits option.splits)

lemma pass_calls_rev: "pass_calls dt (rev H) = rev (pass_calls dt H)"
  by (simp add: pass_calls_def rev_map rev_filter)

lemma pass_calls_identity_term:
  "pass_calls dt (H1 @ (coeff, (0, 0)) # H2) = pass_calls dt (H1 @ H2)"
  by (simp add: pass_calls_def)

lemma first_order_run_calls:
  assumes "N \<noteq> 0"
  shows "first_order_trotter compute H t N q =
     run_calls compute (concat (replicate (nat N) (pass_calls (t / real_of_int N) H))) q"
proof -
  have "(\<lambda>q. apply_hamiltonian_as_pprs compute H (t / real_of_int N) q)
        = run_calls compute (pass_calls (t / real_of_int N) H)"
    by (rule ext) (rule forward_run_calls)
  with assms show ?thesis
    by (simp add: first_order_trotter_def repeat_run_calls)
qed

lemma sweep_run_calls:
  "(case apply_hamiltonian_as_pprs compute H dt q of
      (Some e, q') \<Rightarrow> (Some e, q')
    | (None, q') \<Rightarrow> apply_hamiltonian_as_pprs_reversed compute H dt q')
   = run_calls compute (pass_calls dt H @ pass_calls dt (rev H)) q"
  by (simp add: run_calls_append forward_run_calls backward_run_calls
      split: prod.splits option.splits)

lemma second_order_run_calls:
  assumes "N \<noteq> 0"
  shows "second_order_trotter compute H t N q =
     run_calls compute
       (concat (replicate (nat N)
          (pass_calls (t / (2 * real_of_int N)) H
           @ pass_calls (t / (2 * real_of_int N)) (rev H)))) q"
proof -
  have "second_order_trotter compute H t N q =
          repeat_steps (nat N)
            (run_calls compute
               (pass_calls (t / real_of_int (2 * N)) H
                @ pass_calls (t / real_of_int (2 * N)) (rev H))) q"
    using assms unfolding second_order_trotter_def Let_def sweep_run_calls by simp
  then show ?thesis
    by (simp add: repeat_run_calls)
qed

lemma run_calls_error:
  "fst (run_calls compute cs q) = Some e \<Longrightarrow>
   \<exists>theta x_mask z_mask s. fst (compute theta x_mask z_mask s) = Some e"
proof (induction cs arbitrary: q)
  case Nil
  then show ?case by simp
next
  case (Cons c cs)
  obtain theta x z where c: "c = (theta, x, z)" by (cases c) auto
  show ?case
  proof (cases "compute theta x z q")
    case (Pair r q')
    show ?thesis
    proof (cases r)
      case None
      with Pair c Cons.prems have "fst (run_calls compute cs q') = Some e" by simp
      then show ?thesis by (rule Cons.IH)
    next
      case (Some e')
      with Pair c Cons.prems have "fst (compute theta x z q) = Some e" by simp
      then show ?thesis by blast
    qed
  qed
qed

text \<open>
  C6. A term with \<open>x_mask = 0\<close> and \<open>z_mask = 0\<close> never reaches the register. Invoked
  directly with zero masks, the synthesizer returns without raising and leaves the
  register as it was, whatever the angle. In the scheduler, whatever \<open>compute\<close> does, a
  forward pass, a backward pass, and the first- and second-order schemes over a term list
  holding such a term do exactly what they do over the list without it.
\<close>

theorem identity_term_issues_no_gate:
  "PPR_compute theta 0 0 register = (None, register)
   \<and> apply_hamiltonian_as_pprs compute (H1 @ (coeff, (0, 0)) # H2) dt q
       = apply_hamiltonian_as_pprs compute (H1 @ H2) dt q
   \<and> apply_hamiltonian_as_pprs_reversed compute (H1 @ (coeff, (0, 0)) # H2) dt q
       = apply_hamiltonian_as_pprs_reversed compute (H1 @ H2) dt q
   \<and> first_order_trotter compute (H1 @ (coeff, (0, 0)) # H2) t N q
       = first_order_trotter compute (H1 @ H2) t N q
   \<and> second_order_trotter compute (H1 @ (coeff, (0, 0)) # H2) t N q
       = second_order_trotter compute (H1 @ H2) t N q"
proof -
  have a: "PPR_compute theta 0 0 register = (None, register)"
    by (simp add: PPR_compute_def)
  have b: "apply_hamiltonian_as_pprs compute (H1 @ (coeff, (0, 0)) # H2) dt q
       = apply_hamiltonian_as_pprs compute (H1 @ H2) dt q"
    by (simp only: forward_run_calls pass_calls_identity_term)
  have c: "apply_hamiltonian_as_pprs_reversed compute (H1 @ (coeff, (0, 0)) # H2) dt q
       = apply_hamiltonian_as_pprs_reversed compute (H1 @ H2) dt q"
    by (simp only: backward_run_calls pass_calls_rev pass_calls_identity_term)
  have d: "first_order_trotter compute (H1 @ (coeff, (0, 0)) # H2) t N q
       = first_order_trotter compute (H1 @ H2) t N q"
  proof (cases "N = 0")
    case True
    then show ?thesis by (simp add: first_order_trotter_def)
  next
    case False
    then show ?thesis
      by (simp only: first_order_run_calls [OF False] pass_calls_identity_term)
  qed
  have e: "second_order_trotter compute (H1 @ (coeff, (0, 0)) # H2) t N q
       = second_order_trotter compute (H1 @ H2) t N q"
  proof (cases "N = 0")
    case True
    then show ?thesis by (simp add: second_order_trotter_def)
  next
    case False
    then show ?thesis
      by (simp only: second_order_run_calls [OF False] pass_calls_rev pass_calls_identity_term)
  qed
  from a b c d e show ?thesis by blast
qed

theorem identity_term_issues_no_gate_witness:
  "PPR_compute (Frac 1 0) 0 0 [Had 1] = (None, [Had 1])
   \<and> apply_hamiltonian_as_pprs
        (\<lambda>theta x_mask z_mask calls. (None, calls @ [(theta, x_mask, z_mask)]))
        [(7, (0, 0))] 1 []
      = (None, [])
   \<and> apply_hamiltonian_as_pprs_reversed
        (\<lambda>theta x_mask z_mask calls. (None, calls @ [(theta, x_mask, z_mask)]))
        [(7, (0, 0))] 1 []
      = (None, [])"
  using identity_term_issues_no_gate
    [of "Frac 1 0" "[Had 1]"
        "(\<lambda>theta x_mask z_mask calls. (None, calls @ [(theta, x_mask, z_mask)]))"
        "[]" 7 "[]" 1 "[]"]
  by (simp add: apply_hamiltonian_as_pprs_def apply_hamiltonian_as_pprs_reversed_def)

text \<open>
  C7. For a step count \<open>N \<ge> 1\<close>, the second-order scheduler uses \<open>dt = t / (2 N)\<close> and
  makes exactly the calls of \<open>N\<close> repetitions of a forward pass followed by a backward
  pass: the forward pass invokes \<open>compute\<close> on every non-identity term in list order with
  angle \<open>coefficient * dt\<close>, and the backward pass makes the same calls in exactly the
  reverse order.
\<close>

theorem second_order_trotter_schedule:
  assumes "1 \<le> N"
  shows "second_order_trotter compute H t N q =
           run_calls compute
             (concat (replicate (nat N)
                (pass_calls (t / (2 * real_of_int N)) H
                 @ rev (pass_calls (t / (2 * real_of_int N)) H)))) q"
  using assms by (simp add: second_order_run_calls pass_calls_rev)

theorem second_order_trotter_schedule_witness:
  "(1::int) \<le> 2 \<and>
   second_order_trotter (\<lambda>theta x_mask z_mask calls. (None, calls @ [(theta, x_mask, z_mask)]))
     [(1, (1, 0)), (2, (0, 0)), (3, (0, 2))] 1 2 []
   = (None, [(1/4, 1, 0), (3/4, 0, 2), (3/4, 0, 2), (1/4, 1, 0),
             (1/4, 1, 0), (3/4, 0, 2), (3/4, 0, 2), (1/4, 1, 0)])"
  using second_order_trotter_schedule
    [of 2 "(\<lambda>theta x_mask z_mask calls. (None, calls @ [(theta, x_mask, z_mask)]))"
        "[(1, (1, 0)), (2, (0, 0)), (3, (0, 2))]" 1 "[]"]
  by (simp add: pass_calls_def numeral_2_eq_2)

text \<open>
  C8. When \<open>order\<close> is neither 1 nor 2, \<open>trotter_evolution\<close> raises the \<open>ValueError\<close>
  naming the order and the register is left as it was, whatever \<open>compute\<close> would do. For
  order 1 it is \<open>first_order_trotter\<close>, for order 2 it is \<open>second_order_trotter\<close>, and
  then that \<open>ValueError\<close> is not raised unless \<open>compute\<close> itself raises it.
\<close>

theorem trotter_evolution_dispatch:
  "(order \<noteq> 1 \<and> order \<noteq> 2 \<longrightarrow>
      trotter_evolution compute H t N order q
        = (Some (ValueError (Order_must_be_1_or_2 order)), q))
   \<and> (order = 1 \<longrightarrow>
        trotter_evolution compute H t N order q = first_order_trotter compute H t N q)
   \<and> (order = 2 \<longrightarrow>
        trotter_evolution compute H t N order q = second_order_trotter compute H t N q)
   \<and> ((order = 1 \<or> order = 2)
        \<and> (\<forall>theta x_mask z_mask s.
              fst (compute theta x_mask z_mask s) \<noteq> Some (ValueError (Order_must_be_1_or_2 k)))
      \<longrightarrow> fst (trotter_evolution compute H t N order q)
            \<noteq> Some (ValueError (Order_must_be_1_or_2 k)))"
proof -
  have a: "order \<noteq> 1 \<and> order \<noteq> 2 \<longrightarrow>
      trotter_evolution compute H t N order q
        = (Some (ValueError (Order_must_be_1_or_2 order)), q)"
    by (simp add: trotter_evolution_def)
  have b: "order = 1 \<longrightarrow>
      trotter_evolution compute H t N order q = first_order_trotter compute H t N q"
    by (simp add: trotter_evolution_def)
  have c: "order = 2 \<longrightarrow>
      trotter_evolution compute H t N order q = second_order_trotter compute H t N q"
    by (simp add: trotter_evolution_def)
  have d: "fst (trotter_evolution compute H t N order q)
             \<noteq> Some (ValueError (Order_must_be_1_or_2 k))"
    if ord: "order = 1 \<or> order = 2"
      and quiet: "\<forall>theta x_mask z_mask s.
         fst (compute theta x_mask z_mask s) \<noteq> Some (ValueError (Order_must_be_1_or_2 k))"
  proof (cases "N = 0")
    case True
    with ord show ?thesis
      by (auto simp add: trotter_evolution_def first_order_trotter_def second_order_trotter_def)
  next
    case False
    from quiet run_calls_error [of compute _ q "ValueError (Order_must_be_1_or_2 k)"]
    have "fst (run_calls compute cs q) \<noteq> Some (ValueError (Order_must_be_1_or_2 k))" for cs
      by blast
    with ord False show ?thesis
      by (auto simp add: trotter_evolution_def first_order_run_calls second_order_run_calls)
  qed
  from a b c d show ?thesis by blast
qed

theorem trotter_evolution_dispatch_witness:
  "(3::int) \<noteq> 1 \<and> (3::int) \<noteq> 2
   \<and> trotter_evolution (\<lambda>theta x_mask z_mask calls. (None, calls @ [(theta, x_mask, z_mask)]))
        [(1, (1, 0))] 1 2 3 []
      = (Some (ValueError (Order_must_be_1_or_2 3)), [])
   \<and> trotter_evolution (\<lambda>theta x_mask z_mask calls. (None, calls @ [(theta, x_mask, z_mask)]))
        [(1, (1, 0))] 1 2 1 []
      = (None, [(1/2, 1, 0), (1/2, 1, 0)])
   \<and> trotter_evolution (\<lambda>theta x_mask z_mask calls. (None, calls @ [(theta, x_mask, z_mask)]))
        [(1, (1, 0))] 1 2 2 []
      = (None, [(1/4, 1, 0), (1/4, 1, 0), (1/4, 1, 0), (1/4, 1, 0)])"
  using trotter_evolution_dispatch
    [of 3 "(\<lambda>theta x_mask z_mask calls. (None, calls @ [(theta, x_mask, z_mask)]))"
        "[(1, (1, 0))]" 1 2 "[]" 3]
    trotter_evolution_dispatch
    [of 1 "(\<lambda>theta x_mask z_mask calls. (None, calls @ [(theta, x_mask, z_mask)]))"
        "[(1, (1, 0))]" 1 2 "[]" 3]
    trotter_evolution_dispatch
    [of 2 "(\<lambda>theta x_mask z_mask calls. (None, calls @ [(theta, x_mask, z_mask)]))"
        "[(1, (1, 0))]" 1 2 "[]" 3]
  by (simp add: first_order_run_calls second_order_run_calls pass_calls_def numeral_2_eq_2)


section \<open>Properties of the Hamiltonian builder\<close>

lemma length_combinations: "length (combinations xs r) = length xs choose r"
  by (induction xs r rule: combinations.induct) simp_all

lemma hamil_loop_drawn:
  assumes "coefs = None \<or> coefs = Some []" and "0 \<le> scale"
  shows "fst (hamil_loop normal scale coefs (List.enumerate k ts) hamil g)
         = Inr (hamil @ map2 syk_term (draws normal scale (length ts) g) ts)"
  using assms
proof (induction ts arbitrary: k hamil g)
  case Nil
  then show ?case by simp
next
  case (Cons t ts)
  obtain coef g' where d: "normal 0 scale g = (coef, g')" by (cases "normal 0 scale g") auto
  from Cons.prems have "hamil_loop normal scale coefs (List.enumerate k (t # ts)) hamil g
        = hamil_loop normal scale coefs (List.enumerate (Suc k) ts) (hamil @ [syk_term coef t]) g'"
    by (auto simp add: d Let_def np_random_normal_def syk_term_def PauliMask_mul_def case_prod_beta)
  with Cons.IH [OF Cons.prems, of "Suc k" "hamil @ [syk_term coef t]" g'] show ?case
    by (simp add: d)
qed

lemma hamil_loop_negative_scale:
  assumes "coefs = None \<or> coefs = Some []" and "scale < 0" and "ts \<noteq> []"
  shows "hamil_loop normal scale coefs (List.enumerate k ts) hamil g
         = (Inl (ValueError Scale_negative), g)"
proof -
  from assms(3) obtain t ts' where "ts = t # ts'" by (cases ts) auto
  with assms(1,2) show ?thesis
    by (auto simp add: Let_def np_random_normal_def)
qed

lemma hamil_loop_supplied:
  assumes "coefs = Some cs" and "cs \<noteq> []" and "k + length ts \<le> length cs"
  shows "hamil_loop normal scale coefs (List.enumerate k ts) hamil g
         = (Inr (hamil @ map2 syk_term (take (length ts) (drop k cs)) ts), g)"
  using assms
proof (induction ts arbitrary: k hamil)
  case Nil
  then show ?case by simp
next
  case (Cons t ts)
  from Cons.prems obtain c cs' where cs: "cs = c # cs'" by (cases cs) auto
  from Cons.prems have k: "k < length cs" by simp
  from Cons.prems k cs have "hamil_loop normal scale coefs (List.enumerate k (t # ts)) hamil g
        = hamil_loop normal scale coefs (List.enumerate (Suc k) ts) (hamil @ [syk_term (cs ! k) t]) g"
    by (simp add: Let_def syk_term_def PauliMask_mul_def case_prod_beta)
  moreover from Cons.prems have "Suc k + length ts \<le> length cs" by simp
  moreover from k have "take (Suc (length ts)) (drop k cs) = cs ! k # take (length ts) (drop (Suc k) cs)"
    by (simp add: Cons_nth_drop_Suc [symmetric])
  ultimately show ?case
    using Cons.IH [OF Cons.prems(1) Cons.prems(2), of "Suc k" "hamil @ [syk_term (cs ! k) t]"]
    by simp
qed

lemma hamil_loop_short:
  assumes "coefs = Some cs" and "cs \<noteq> []" and "length cs < k + length ts" and "k \<le> length cs"
  shows "hamil_loop normal scale coefs (List.enumerate k ts) hamil g = (Inl IndexError, g)"
  using assms
proof (induction ts arbitrary: k hamil)
  case Nil
  then show ?case by simp
next
  case (Cons t ts)
  from Cons.prems obtain c cs' where cs: "cs = c # cs'" by (cases cs) auto
  show ?case
  proof (cases "k < length cs")
    case True
    with Cons.prems cs have "hamil_loop normal scale coefs (List.enumerate k (t # ts)) hamil g
        = hamil_loop normal scale coefs (List.enumerate (Suc k) ts) (hamil @ [syk_term (cs ! k) t]) g"
      by (simp add: Let_def syk_term_def PauliMask_mul_def case_prod_beta)
    with True Cons.prems Cons.IH [OF Cons.prems(1) Cons.prems(2), of "Suc k" "hamil @ [syk_term (cs ! k) t]"]
    show ?thesis by simp
  next
    case False
    with Cons.prems cs show ?thesis
      by (simp add: Let_def)
  qed
qed

lemma hamil_loop_empty_coefs:
  "hamil_loop normal scale (Some []) es hamil g = hamil_loop normal scale None es hamil g"
proof (induction es arbitrary: hamil g)
  case Nil
  then show ?case by simp
next
  case (Cons e es)
  obtain ind tup where e: "e = (ind, tup)" by (cases e) auto
  show ?case
    by (simp add: e Let_def Cons.IH split: sum.splits prod.splits)
qed

lemma set_combinations:
  assumes "sorted_wrt (<) (xs :: nat list)"
  shows "set (combinations xs r) = {ys. length ys = r \<and> sorted_wrt (<) ys \<and> set ys \<subseteq> set xs}"
  using assms
proof (induction xs r rule: combinations.induct)
  case (1 xs)
  then show ?case by auto
next
  case (2 r)
  then show ?case by auto
next
  case (3 x xs r)
  from "3.prems" have sx: "sorted_wrt (<) xs" and lt: "\<forall>y \<in> set xs. x < y" by auto
  have ih1: "set (combinations xs r) = {ys. length ys = r \<and> sorted_wrt (<) ys \<and> set ys \<subseteq> set xs}"
    using "3.IH"(1) sx by blast
  have ih2: "set (combinations xs (Suc r)) = {ys. length ys = Suc r \<and> sorted_wrt (<) ys \<and> set ys \<subseteq> set xs}"
    using "3.IH"(2) sx by blast
  show ?case
  proof (intro set_eqI iffI)
    fix ys
    assume "ys \<in> set (combinations (x # xs) (Suc r))"
    then consider zs where "ys = x # zs" "zs \<in> set (combinations xs r)"
      | "ys \<in> set (combinations xs (Suc r))" by auto
    then show "ys \<in> {ys. length ys = Suc r \<and> sorted_wrt (<) ys \<and> set ys \<subseteq> set (x # xs)}"
    proof cases
      case 1
      with ih1 lt show ?thesis by auto
    next
      case 2
      with ih2 show ?thesis by auto
    qed
  next
    fix ys
    assume "ys \<in> {ys. length ys = Suc r \<and> sorted_wrt (<) ys \<and> set ys \<subseteq> set (x # xs)}"
    then have len: "length ys = Suc r" and so: "sorted_wrt (<) ys" and sub: "set ys \<subseteq> insert x (set xs)"
      by auto
    from len obtain y zs where ys: "ys = y # zs" by (cases ys) auto
    from so ys have zs_gt: "\<forall>z \<in> set zs. y < z" and zs_so: "sorted_wrt (<) zs" by auto
    show "ys \<in> set (combinations (x # xs) (Suc r))"
    proof (cases "y = x")
      case True
      with zs_gt sub ys have "set zs \<subseteq> set xs" by auto
      with zs_so len ys ih1 have "zs \<in> set (combinations xs r)" by auto
      with True ys show ?thesis by auto
    next
      case False
      with sub ys have yin: "y \<in> set xs" by auto
      with lt have "x < y" by blast
      with zs_gt have "\<forall>z \<in> set zs. z \<noteq> x" by auto
      with sub ys yin have "set ys \<subseteq> set xs" by auto
      with len so ih2 have "ys \<in> set (combinations xs (Suc r))" by auto
      then show ?thesis by auto
    qed
  qed
qed

lemma lex_sorted_combinations:
  assumes "sorted_wrt (<) (xs :: nat list)"
  shows "sorted_wrt (\<lambda>s t. (s, t) \<in> lexord {(a, b). a < b}) (combinations xs r)"
  using assms
proof (induction xs r rule: combinations.induct)
  case (1 xs)
  then show ?case by simp
next
  case (2 r)
  then show ?case by simp
next
  case (3 x xs r)
  from "3.prems" have sx: "sorted_wrt (<) xs" and lt: "\<forall>y \<in> set xs. x < y" by auto
  have a: "sorted_wrt (\<lambda>s t. (s, t) \<in> lexord {(a, b). a < b}) (map ((#) x) (combinations xs r))"
    using "3.IH"(1) [OF sx] by (simp add: sorted_wrt_map)
  have b: "sorted_wrt (\<lambda>s t. (s, t) \<in> lexord {(a, b). a < b}) (combinations xs (Suc r))"
    using "3.IH"(2) [OF sx] .
  have c: "(x # s, t) \<in> lexord {(a, b). a < b}"
    if "t \<in> set (combinations xs (Suc r))" for s t
  proof -
    from that set_combinations [OF sx, of "Suc r"]
    have "length t = Suc r" and "set t \<subseteq> set xs" by auto
    then obtain y zs where "t = y # zs" and "y \<in> set xs" by (cases t) auto
    with lt show ?thesis by auto
  qed
  from a b c show ?case
    by (auto simp add: sorted_wrt_append)
qed

lemma quads_4:
  "{ys. length ys = 4 \<and> sorted_wrt (<) ys \<and> set ys \<subseteq> set [0 ..< m]}
   = {[a, b, c, d] | a b c d. a < b \<and> b < c \<and> c < d \<and> d < m}"
proof (intro set_eqI iffI)
  fix ys :: "nat list"
  assume "ys \<in> {ys. length ys = 4 \<and> sorted_wrt (<) ys \<and> set ys \<subseteq> set [0 ..< m]}"
  then have len: "length ys = 4" and so: "sorted_wrt (<) ys" and sub: "set ys \<subseteq> {0 ..< m}" by auto
  from len obtain a b c d where "ys = [a, b, c, d]"
    by (auto simp add: numeral_eq_Suc length_Suc_conv)
  with so sub show "ys \<in> {[a, b, c, d] | a b c d. a < b \<and> b < c \<and> c < d \<and> d < m}" by auto
next
  fix ys :: "nat list"
  assume "ys \<in> {[a, b, c, d] | a b c d. a < b \<and> b < c \<and> c < d \<and> d < m}"
  then show "ys \<in> {ys. length ys = 4 \<and> sorted_wrt (<) ys \<and> set ys \<subseteq> set [0 ..< m]}" by auto
qed

lemma SYK_hamil_bad_seed:
  assumes "\<not> seed_in_range random_seed"
  shows "SYK_hamil seed normal n J coefs random_seed g = (Inl (ValueError Seed_out_of_range), g)"
  using assms
  by (auto simp add: SYK_hamil_def seed_in_range_def np_random_seed_def split: option.splits)

lemma SYK_hamil_zero:
  assumes "seed_in_range random_seed"
  shows "fst (SYK_hamil seed normal 0 J coefs random_seed g) = Inl ZeroDivisionError"
  using assms
  by (auto simp add: SYK_hamil_def seed_in_range_def np_random_seed_def split: option.splits)

lemma SYK_hamil_unfold:
  assumes "1 \<le> n" and "seed_in_range random_seed"
  shows "SYK_hamil seed normal n J coefs random_seed g =
           hamil_loop normal (sqrt (6 / real ((2 * n) ^ 3)) * J * 24) coefs
             (List.enumerate 0 (combinations [0 ..< 2 * n] 4)) []
             (case random_seed of Some s \<Rightarrow> seed s | None \<Rightarrow> g)"
  using assms
  by (auto simp add: SYK_hamil_def Let_def seed_in_range_def np_random_seed_def
      split: option.splits)

lemma scale_sign:
  assumes "1 \<le> n"
  shows "(sqrt (6 / real ((2 * n) ^ 3)) * J * 24 < 0) = (J < 0)"
proof -
  from assms have "0 < sqrt (6 / real ((2 * n) ^ 3))" by simp
  then show ?thesis
    by (simp add: mult_less_0_iff zero_less_mult_iff not_less_iff_gr_or_eq mult.assoc)
qed

lemma quads_empty_iff: "(combinations [0 ..< 2 * n] 4 = []) = (n < 2)"
proof -
  have "(combinations [0 ..< 2 * n] 4 = []) = (length (combinations [0 ..< 2 * n] 4) = 0)"
    by simp
  also have "\<dots> = ((2 * n choose 4) = 0)"
    by (simp only: length_combinations length_upt) simp
  also have "\<dots> = (2 * n < 4)"
    by (simp add: binomial_eq_0_iff)
  also have "\<dots> = (n < 2)" by auto
  finally show ?thesis .
qed

lemma SYK_hamil_drawn:
  assumes "coefs = None \<or> coefs = Some []"
  shows "fst (SYK_hamil seed normal n J coefs random_seed g) =
           (if \<not> seed_in_range random_seed then Inl (ValueError Seed_out_of_range)
            else if n = 0 then Inl ZeroDivisionError
            else if J < 0 \<and> 2 \<le> n then Inl (ValueError Scale_negative)
            else Inr (map2 syk_term
                        (draws normal (sqrt (6 / real ((2 * n) ^ 3)) * J * 24) (2 * n choose 4)
                           (case random_seed of Some s \<Rightarrow> seed s | None \<Rightarrow> g))
                        (combinations [0 ..< 2 * n] 4)))"
proof (cases "seed_in_range random_seed")
  case False
  then show ?thesis by (simp add: SYK_hamil_bad_seed)
next
  case seed: True
  show ?thesis
  proof (cases "n = 0")
    case True
    with seed show ?thesis by (simp add: SYK_hamil_zero)
  next
    case False
    then have n: "1 \<le> n" by simp
    let ?scale = "sqrt (6 / real ((2 * n) ^ 3)) * J * 24"
    let ?quads = "combinations [0 ..< 2 * n] 4"
    let ?g1 = "(case random_seed of Some s \<Rightarrow> seed s | None \<Rightarrow> g)"
    show ?thesis
    proof (cases "J < 0 \<and> 2 \<le> n")
      case True
      then have "?scale < 0" and "?quads \<noteq> []"
        using scale_sign [OF n, of J] quads_empty_iff [of n] by auto
      from hamil_loop_negative_scale [OF assms this, of normal 0 "[]" ?g1] seed False True
      show ?thesis
        by (simp add: SYK_hamil_unfold [OF n seed])
    next
      case nonneg: False
      have "fst (hamil_loop normal ?scale coefs (List.enumerate 0 ?quads) [] ?g1)
            = Inr (map2 syk_term (draws normal ?scale (2 * n choose 4) ?g1) ?quads)"
      proof (cases "J < 0")
        case True
        with nonneg have "n < 2" by simp
        then have "?quads = []" and "(2 * n choose 4) = 0"
          using quads_empty_iff [of n] by (auto simp add: binomial_eq_0_iff)
        then show ?thesis by simp
      next
        case False
        then have "0 \<le> ?scale" using scale_sign [OF n, of J] by simp
        from hamil_loop_drawn [OF assms this, of normal 0 ?quads "[]" ?g1] show ?thesis
          by (simp add: length_combinations)
      qed
      with seed False nonneg show ?thesis
        by (simp add: SYK_hamil_unfold [OF n seed])
    qed
  qed
qed

text \<open>
  C3, amended. For every qubit count \<open>n \<ge> 1\<close>, with no seed or a seed between \<open>0\<close> and
  \<open>2**32 - 1\<close>, and with \<open>coefs\<close> either a non-empty list of at least \<open>C(2n, 4)\<close>
  values, or absent or empty while \<open>J \<ge> 0\<close> (or \<open>n = 1\<close>, where nothing is drawn), the
  builder returns a term list of exactly \<open>C(2n, 4)\<close> entries, one per 4-tuple of
  \<open>combinations(range(2n), 4)\<close> in that order. These tuples are exactly the strictly
  increasing 4-tuples of indices below \<open>2n\<close>, in strictly increasing lexicographic
  order. The term of a tuple \<open>(a, b, c, d)\<close> has the masks of the pairs \<open>(a, b)\<close> and
  \<open>(c, d)\<close> combined by XOR and the coefficient \<open>(1/96) * value * real(phase1 * phase2)\<close>,
  the value being \<open>coefs[ind]\<close> when a non-empty list is supplied and the next draw with
  scale \<open>sqrt(6/(2n)^3) * J * 24\<close> otherwise.
\<close>

theorem SYK_hamil_terms:
  assumes "1 \<le> n"
    and "seed_in_range random_seed"
    and "((coefs = None \<or> coefs = Some []) \<and> (0 \<le> J \<or> n = 1))
         \<or> (\<exists>cs. coefs = Some cs \<and> cs \<noteq> [] \<and> (2 * n choose 4) \<le> length cs)"
  shows "(let quads = combinations [0 ..< 2 * n] 4;
              g1 = (case random_seed of Some s \<Rightarrow> seed s | None \<Rightarrow> g);
              vals = (case coefs of
                          Some (c # cs) \<Rightarrow> take (length quads) (c # cs)
                        | _ \<Rightarrow> draws normal (sqrt (6 / real ((2 * n) ^ 3)) * J * 24) (length quads) g1)
          in fst (SYK_hamil seed normal n J coefs random_seed g) = Inr (map2 syk_term vals quads)
           \<and> length (map2 syk_term vals quads) = (2 * n choose 4)
           \<and> length quads = (2 * n choose 4)
           \<and> set quads = {[a, b, c, d] | a b c d. a < b \<and> b < c \<and> c < d \<and> d < 2 * n}
           \<and> sorted_wrt (\<lambda>s t. (s, t) \<in> lexord {(a, b). a < b}) quads)"
proof -
  let ?quads = "combinations [0 ..< 2 * n] 4"
  let ?g1 = "(case random_seed of Some s \<Rightarrow> seed s | None \<Rightarrow> g)"
  let ?scale = "sqrt (6 / real ((2 * n) ^ 3)) * J * 24"
  let ?vals = "(case coefs of
                  Some (c # cs) \<Rightarrow> take (length ?quads) (c # cs)
                | _ \<Rightarrow> draws normal ?scale (length ?quads) ?g1)"
  have len: "length ?quads = (2 * n choose 4)"
    by (simp add: length_combinations)
  have srt: "sorted_wrt (<) [0 ..< 2 * n]" by simp
  have st: "set ?quads = {[a, b, c, d] | a b c d. a < b \<and> b < c \<and> c < d \<and> d < 2 * n}"
    by (simp only: set_combinations [OF srt] quads_4)
  have lx: "sorted_wrt (\<lambda>s t. (s, t) \<in> lexord {(a, b). a < b}) ?quads"
    by (rule lex_sorted_combinations [OF srt])
  have draws_len: "length (draws normal sc k s) = k" for sc k s
    by (induction k arbitrary: s) (auto split: prod.splits)
  consider (drawn) "coefs = None \<or> coefs = Some []" "0 \<le> J \<or> n = 1"
    | (supplied) cs where "coefs = Some cs" "cs \<noteq> []" "(2 * n choose 4) \<le> length cs"
    using assms(3) by blast
  then have "fst (SYK_hamil seed normal n J coefs random_seed g) = Inr (map2 syk_term ?vals ?quads)
       \<and> length ?vals = length ?quads"
  proof cases
    case drawn
    from drawn(1) have v: "?vals = draws normal ?scale (2 * n choose 4) ?g1"
      by (auto simp add: length_combinations)
    from drawn(2) assms(1) have "\<not> (J < 0 \<and> 2 \<le> n)" by auto
    with SYK_hamil_drawn [OF drawn(1), of seed normal n J random_seed g] assms(1,2)
    have "fst (SYK_hamil seed normal n J coefs random_seed g) = Inr (map2 syk_term ?vals ?quads)"
      unfolding v by simp
    moreover have "length ?vals = length ?quads"
      unfolding v by (simp add: draws_len len)
    ultimately show ?thesis by blast
  next
    case supplied
    then obtain c cs' where cs: "cs = c # cs'" by (cases cs) auto
    with supplied have v: "?vals = take (length ?quads) (drop 0 cs)" by simp
    from supplied len have le: "0 + length ?quads \<le> length cs" by simp
    show ?thesis
      unfolding v SYK_hamil_unfold [OF assms(1,2)]
      using hamil_loop_supplied [OF supplied(1) supplied(2) le, of normal ?scale "[]" ?g1] le
      by simp
  qed
  then have res: "fst (SYK_hamil seed normal n J coefs random_seed g) = Inr (map2 syk_term ?vals ?quads)"
    and vlen: "length ?vals = length ?quads" by blast+
  from vlen len have tl: "length (map2 syk_term ?vals ?quads) = (2 * n choose 4)" by simp
  from res tl len st lx show ?thesis
    unfolding Let_def by blast
qed

lemma quads_2: "combinations [0 ..< 2 * 2] 4 = [[0, 1, 2, 3::nat]]"
  by code_simp

lemma quads_2': "combinations [0 ..< 4] 4 = [[0, 1, 2, 3::nat]]"
  by code_simp

lemma quads_3:
  "combinations [0 ..< 2 * 3] 4 =
     [[0, 1, 2, 3], [0, 1, 2, 4], [0, 1, 2, 5], [0, 1, 3, 4], [0, 1, 3, 5],
      [0, 1, 4, 5], [0, 2, 3, 4], [0, 2, 3, 5], [0, 2, 4, 5], [0, 3, 4, 5],
      [1, 2, 3, 4], [1, 2, 3, 5], [1, 2, 4, 5], [1, 3, 4, 5], [2, 3, 4, 5::nat]]"
  by code_simp

lemma choose_6_4: "(6 choose 4) = (15::nat)"
  by code_simp

lemma pairs_below_6:
  "SYK_pair_to_mask 0 1 = (\<i>, (0, 1))" "SYK_pair_to_mask 0 2 = (- \<i>, (3, 1))"
  "SYK_pair_to_mask 0 3 = (- \<i>, (3, 3))" "SYK_pair_to_mask 1 2 = (\<i>, (3, 0))"
  "SYK_pair_to_mask 1 3 = (\<i>, (3, 2))" "SYK_pair_to_mask 2 3 = (\<i>, (0, 2))"
  "SYK_pair_to_mask 2 4 = (- \<i>, (6, 2))" "SYK_pair_to_mask 2 5 = (- \<i>, (6, 6))"
  "SYK_pair_to_mask 3 4 = (\<i>, (6, 0))" "SYK_pair_to_mask 3 5 = (\<i>, (6, 4))"
  "SYK_pair_to_mask 4 5 = (\<i>, (0, 4))"
  by (simp_all add: SYK_pair_to_mask_def)

lemma quads_3':
  "combinations [0 ..< 6] 4 =
     [[0, 1, 2, 3], [0, 1, 2, 4], [0, 1, 2, 5], [0, 1, 3, 4], [0, 1, 3, 5],
      [0, 1, 4, 5], [0, 2, 3, 4], [0, 2, 3, 5], [0, 2, 4, 5], [0, 3, 4, 5],
      [1, 2, 3, 4], [1, 2, 3, 5], [1, 2, 4, 5], [1, 3, 4, 5], [2, 3, 4, 5::nat]]"
  by code_simp

lemma pairs_Suc:
  "SYK_pair_to_mask 0 (Suc 0) = (\<i>, (0, 1))" "SYK_pair_to_mask (Suc 0) 2 = (\<i>, (3, 0))"
  "SYK_pair_to_mask (Suc 0) 3 = (\<i>, (3, 2))"
  using pairs_below_6 by simp_all

lemma seed_examples: "seed_in_range None" "seed_in_range (Some 7)" "\<not> seed_in_range (Some (- 1))"
  by (simp_all add: seed_in_range_def)

theorem SYK_hamil_terms_witness:
  "(1::nat) \<le> 3 \<and> seed_in_range None
   \<and> (2 * 3 choose 4)
        \<le> length [96, 192, 288, 384, 480, 576, 672, 768, 864, 960, 1056, 1152, 1248, 1344, 1440::real]
   \<and> fst (SYK_hamil (\<lambda>s. nat s) (\<lambda>loc scale k. (loc + scale * real k, Suc k)) 3 1
            (Some [96, 192, 288, 384, 480, 576, 672, 768, 864, 960, 1056, 1152, 1248, 1344, 1440])
            None 0)
       = Inr [(- 1, (0, 3)), (2, (6, 3)), (3, (6, 7)), (- 4, (6, 1)), (- 5, (6, 5)),
              (- 6, (0, 5)), (7, (5, 1)), (8, (5, 5)), (9, (3, 5)), (10, (3, 7)),
              (- 11, (5, 0)), (- 12, (5, 4)), (- 13, (3, 4)), (- 14, (3, 6)), (- 15, (0, 6))]
   \<and> (1::nat) \<le> 2 \<and> seed_in_range (Some 7) \<and> (0::real) \<le> 2
   \<and> fst (SYK_hamil (\<lambda>s. nat s) (\<lambda>loc scale k. (loc + scale * real k, Suc k)) 2 2 None (Some 7) 0)
       = Inr [syk_term (sqrt (6 / 64) * 2 * 24 * 7) [0, 1, 2, 3]]"
proof -
  let ?cs = "[96, 192, 288, 384, 480, 576, 672, 768, 864, 960, 1056, 1152, 1248, 1344, 1440::real]"
  have le: "(2 * 3 choose 4) \<le> length ?cs"
    by (simp add: choose_6_4)
  then have ok: "((Some ?cs = None \<or> Some ?cs = Some []) \<and> ((0::real) \<le> 1 \<or> (3::nat) = 1))
       \<or> (\<exists>cs. Some ?cs = Some cs \<and> cs \<noteq> [] \<and> (2 * 3 choose 4) \<le> length cs)"
    by blast
  from SYK_hamil_terms [where n = 3 and coefs = "Some ?cs" and seed = "\<lambda>s. nat s"
      and random_seed = None and g = 0 and normal = "\<lambda>loc scale k. (loc + scale * real k, Suc k)"
      and J = 1, OF _ seed_examples(1) ok]
  have "fst (SYK_hamil (\<lambda>s. nat s) (\<lambda>loc scale k. (loc + scale * real k, Suc k)) 3 1 (Some ?cs) None 0)
       = Inr (map2 syk_term (take (length (combinations [0 ..< 2 * 3] 4)) ?cs)
                (combinations [0 ..< 2 * 3] 4))"
    by (simp add: Let_def)
  also have "map2 syk_term (take (length (combinations [0 ..< 2 * 3] 4)) ?cs)
                (combinations [0 ..< 2 * 3] 4)
     = [(- 1, (0, 3)), (2, (6, 3)), (3, (6, 7)), (- 4, (6, 1)), (- 5, (6, 5)),
        (- 6, (0, 5)), (7, (5, 1)), (8, (5, 5)), (9, (3, 5)), (10, (3, 7)),
        (- 11, (5, 0)), (- 12, (5, 4)), (- 13, (3, 4)), (- 14, (3, 6)), (- 15, (0, 6))]"
    by (simp add: quads_3 quads_3' syk_term_def pairs_below_6 pairs_Suc)
  finally have supplied: "fst (SYK_hamil (\<lambda>s. nat s) (\<lambda>loc scale k. (loc + scale * real k, Suc k)) 3 1
            (Some ?cs) None 0)
     = Inr [(- 1, (0, 3)), (2, (6, 3)), (3, (6, 7)), (- 4, (6, 1)), (- 5, (6, 5)),
        (- 6, (0, 5)), (7, (5, 1)), (8, (5, 5)), (9, (3, 5)), (10, (3, 7)),
        (- 11, (5, 0)), (- 12, (5, 4)), (- 13, (3, 4)), (- 14, (3, 6)), (- 15, (0, 6))]" .
  have ok2: "(((None :: real list option) = None \<or> (None :: real list option) = Some [])
                \<and> ((0::real) \<le> 2 \<or> (2::nat) = 1))
       \<or> (\<exists>cs. (None :: real list option) = Some cs \<and> cs \<noteq> [] \<and> (2 * 2 choose 4) \<le> length cs)"
    by simp
  from SYK_hamil_terms [where n = 2 and coefs = None and seed = "\<lambda>s. nat s"
      and random_seed = "Some 7" and g = 0 and normal = "\<lambda>loc scale k. (loc + scale * real k, Suc k)"
      and J = 2, OF _ seed_examples(2) ok2]
  have "fst (SYK_hamil (\<lambda>s. nat s) (\<lambda>loc scale k. (loc + scale * real k, Suc k)) 2 2 None (Some 7) 0)
       = Inr (map2 syk_term
                (draws (\<lambda>loc scale k. (loc + scale * real k, Suc k))
                   (sqrt (6 / real ((2 * 2) ^ 3)) * 2 * 24) (length (combinations [0 ..< 2 * 2] 4))
                   (case Some 7 of Some s \<Rightarrow> nat s | None \<Rightarrow> 0))
                (combinations [0 ..< 2 * 2] 4))"
    by (simp add: Let_def)
  also have "map2 syk_term
                (draws (\<lambda>loc scale k. (loc + scale * real k, Suc k))
                   (sqrt (6 / real ((2 * 2) ^ 3)) * 2 * 24) (length (combinations [0 ..< 2 * 2] 4))
                   (case Some 7 of Some s \<Rightarrow> nat s | None \<Rightarrow> 0))
                (combinations [0 ..< 2 * 2] 4)
      = [syk_term (sqrt (6 / 64) * 2 * 24 * 7) [0, 1, 2, 3]]"
    by (simp add: quads_2 quads_2')
  finally have drawn: "fst (SYK_hamil (\<lambda>s. nat s) (\<lambda>loc scale k. (loc + scale * real k, Suc k)) 2 2 None (Some 7) 0)
       = Inr [syk_term (sqrt (6 / 64) * 2 * 24 * 7) [0, 1, 2, 3]]" .
  have "(1::nat) \<le> 3" "(1::nat) \<le> 2" "(0::real) \<le> 2" by simp_all
  with le supplied drawn seed_examples(1,2) show ?thesis by blast
qed

text \<open>
  C3, as the claim states it, fails: for the qubit count \<open>0\<close> the builder raises
  \<open>ZeroDivisionError\<close> instead of returning the empty term list; for \<open>n = 3\<close> with the
  one-element list \<open>coefs = [1]\<close> it raises \<open>IndexError\<close> at the second of the 15
  tuples; for \<open>n = 2\<close> and \<open>J = -1\<close> without \<open>coefs\<close> the draw raises \<open>ValueError\<close>
  on the negative scale; and with the seed \<open>-1\<close> the seeding raises \<open>ValueError\<close>.
\<close>

theorem SYK_hamil_counterexample:
  "fst (SYK_hamil (\<lambda>s. nat s) (\<lambda>loc scale k. (loc + scale * real k, Suc k)) 0 1 None None 0)
     = Inl ZeroDivisionError
   \<and> fst (SYK_hamil (\<lambda>s. nat s) (\<lambda>loc scale k. (loc + scale * real k, Suc k)) 3 1 (Some [1]) None 0)
     = Inl IndexError
   \<and> fst (SYK_hamil (\<lambda>s. nat s) (\<lambda>loc scale k. (loc + scale * real k, Suc k)) 2 (- 1) None None 0)
     = Inl (ValueError Scale_negative)
   \<and> fst (SYK_hamil (\<lambda>s. nat s) (\<lambda>loc scale k. (loc + scale * real k, Suc k)) 2 1 None (Some (- 1)) 0)
     = Inl (ValueError Seed_out_of_range)"
proof -
  have a: "fst (SYK_hamil (\<lambda>s. nat s) (\<lambda>loc scale k. (loc + scale * real k, Suc k)) 0 1 None None 0)
     = Inl ZeroDivisionError"
    by (rule SYK_hamil_zero [OF seed_examples(1)])
  have short: "length [1::real] < 0 + length (combinations [0 ..< 2 * 3] 4)"
    by (simp add: length_combinations choose_6_4)
  have "hamil_loop (\<lambda>loc scale k. (loc + scale * real k, Suc k)) (sqrt (6 / real ((2 * 3) ^ 3)) * 1 * 24)
          (Some [1]) (List.enumerate 0 (combinations [0 ..< 2 * 3] 4)) [] (0::nat)
        = (Inl IndexError, 0)"
    by (rule hamil_loop_short [OF refl _ short]) simp_all
  then have b: "fst (SYK_hamil (\<lambda>s. nat s) (\<lambda>loc scale k. (loc + scale * real k, Suc k)) 3 1 (Some [1]) None 0)
     = Inl IndexError"
    by (simp add: SYK_hamil_unfold seed_examples)
  have c: "fst (SYK_hamil (\<lambda>s. nat s) (\<lambda>loc scale k. (loc + scale * real k, Suc k)) 2 (- 1) None None 0)
     = Inl (ValueError Scale_negative)"
    by (simp add: SYK_hamil_drawn seed_examples)
  have d: "fst (SYK_hamil (\<lambda>s. nat s) (\<lambda>loc scale k. (loc + scale * real k, Suc k)) 2 1 None (Some (- 1)) 0)
     = Inl (ValueError Seed_out_of_range)"
    by (simp add: SYK_hamil_bad_seed seed_examples)
  from a b c d show ?thesis by blast
qed

text \<open>
  C10. With \<open>coefs\<close> the empty list, \<open>SYK_hamil\<close> does what it does with \<open>coefs\<close>
  omitted, result and generator state alike, whether it returns or raises; it never
  raises \<open>IndexError\<close>; and what it does is this: a seed out of range raises
  \<open>ValueError\<close>, else \<open>n = 0\<close> raises \<open>ZeroDivisionError\<close>, else a negative \<open>J\<close> with
  \<open>n \<ge> 2\<close> raises \<open>ValueError\<close> at the first draw, and otherwise every term's value is
  a draw of the normal sampler at location 0 and scale \<open>sqrt(6/(2n)^3) * J * 24\<close>, from
  the seeded state when a seed is given.
\<close>

theorem SYK_hamil_empty_coefs:
  "SYK_hamil seed normal n J (Some []) random_seed g = SYK_hamil seed normal n J None random_seed g
   \<and> fst (SYK_hamil seed normal n J (Some []) random_seed g) \<noteq> Inl IndexError
   \<and> fst (SYK_hamil seed normal n J (Some []) random_seed g) =
       (if \<not> seed_in_range random_seed then Inl (ValueError Seed_out_of_range)
        else if n = 0 then Inl ZeroDivisionError
        else if J < 0 \<and> 2 \<le> n then Inl (ValueError Scale_negative)
        else Inr (map2 syk_term
                    (draws normal (sqrt (6 / real ((2 * n) ^ 3)) * J * 24) (2 * n choose 4)
                       (case random_seed of Some s \<Rightarrow> seed s | None \<Rightarrow> g))
                    (combinations [0 ..< 2 * n] 4)))"
proof -
  have a: "SYK_hamil seed normal n J (Some []) random_seed g
             = SYK_hamil seed normal n J None random_seed g"
    by (simp add: SYK_hamil_def Let_def hamil_loop_empty_coefs split: sum.splits option.splits)
  have c: "fst (SYK_hamil seed normal n J (Some []) random_seed g) =
       (if \<not> seed_in_range random_seed then Inl (ValueError Seed_out_of_range)
        else if n = 0 then Inl ZeroDivisionError
        else if J < 0 \<and> 2 \<le> n then Inl (ValueError Scale_negative)
        else Inr (map2 syk_term
                    (draws normal (sqrt (6 / real ((2 * n) ^ 3)) * J * 24) (2 * n choose 4)
                       (case random_seed of Some s \<Rightarrow> seed s | None \<Rightarrow> g))
                    (combinations [0 ..< 2 * n] 4)))"
    by (rule SYK_hamil_drawn) simp
  have b: "fst (SYK_hamil seed normal n J (Some []) random_seed g) \<noteq> Inl IndexError"
    unfolding c by simp
  from a b c show ?thesis by blast
qed

theorem SYK_hamil_empty_coefs_witness:
  "SYK_hamil (\<lambda>s. nat s) (\<lambda>loc scale k. (loc + scale * real k, Suc k)) 2 1 (Some []) (Some 7) 0
     = SYK_hamil (\<lambda>s. nat s) (\<lambda>loc scale k. (loc + scale * real k, Suc k)) 2 1 None (Some 7) 0
   \<and> seed_in_range (Some 7)
   \<and> fst (SYK_hamil (\<lambda>s. nat s) (\<lambda>loc scale k. (loc + scale * real k, Suc k)) 2 1 (Some []) (Some 7) 0)
     = Inr [syk_term (sqrt (6 / 64) * 24 * 7) [0, 1, 2, 3]]
   \<and> fst (SYK_hamil (\<lambda>s. nat s) (\<lambda>loc scale k. (loc + scale * real k, Suc k)) 2 (- 1) (Some []) (Some 7) 0)
     = Inl (ValueError Scale_negative)"
proof -
  note inst = SYK_hamil_empty_coefs [of "\<lambda>s. nat s" "\<lambda>loc scale k. (loc + scale * real k, Suc k)" 2 1 "Some 7" 0]
  note inst_neg = SYK_hamil_empty_coefs [of "\<lambda>s. nat s" "\<lambda>loc scale k. (loc + scale * real k, Suc k)" 2 "- 1" "Some 7" 0]
  have rhs: "map2 syk_term
               (draws (\<lambda>loc scale k. (loc + scale * real k, Suc k))
                  (sqrt (6 / real ((2 * 2) ^ 3)) * 1 * 24) (2 * 2 choose 4)
                  (case Some 7 of Some s \<Rightarrow> nat s | None \<Rightarrow> 0))
               (combinations [0 ..< 2 * 2] 4)
             = [syk_term (sqrt (6 / 64) * 24 * 7) [0, 1, 2, 3]]"
    by (simp add: quads_2 quads_2')
  from inst have same: "SYK_hamil (\<lambda>s. nat s) (\<lambda>loc scale k. (loc + scale * real k, Suc k)) 2 1 (Some []) (Some 7) 0
     = SYK_hamil (\<lambda>s. nat s) (\<lambda>loc scale k. (loc + scale * real k, Suc k)) 2 1 None (Some 7) 0"
    by blast
  from inst have "fst (SYK_hamil (\<lambda>s. nat s) (\<lambda>loc scale k. (loc + scale * real k, Suc k)) 2 1 (Some []) (Some 7) 0)
     = (if \<not> seed_in_range (Some 7) then Inl (ValueError Seed_out_of_range)
        else if (2::nat) = 0 then Inl ZeroDivisionError
        else if (1::real) < 0 \<and> (2::nat) \<le> 2 then Inl (ValueError Scale_negative)
        else Inr (map2 syk_term
               (draws (\<lambda>loc scale k. (loc + scale * real k, Suc k))
                  (sqrt (6 / real ((2 * 2) ^ 3)) * 1 * 24) (2 * 2 choose 4)
                  (case Some 7 of Some s \<Rightarrow> nat s | None \<Rightarrow> 0))
               (combinations [0 ..< 2 * 2] 4)))"
    by blast
  then have drawn: "fst (SYK_hamil (\<lambda>s. nat s) (\<lambda>loc scale k. (loc + scale * real k, Suc k)) 2 1 (Some []) (Some 7) 0)
     = Inr [syk_term (sqrt (6 / 64) * 24 * 7) [0, 1, 2, 3]]"
    unfolding rhs by (simp add: seed_examples)
  from inst_neg have "fst (SYK_hamil (\<lambda>s. nat s) (\<lambda>loc scale k. (loc + scale * real k, Suc k)) 2 (- 1) (Some []) (Some 7) 0)
     = (if \<not> seed_in_range (Some 7) then Inl (ValueError Seed_out_of_range)
        else if (2::nat) = 0 then Inl ZeroDivisionError
        else if (- 1::real) < 0 \<and> (2::nat) \<le> 2 then Inl (ValueError Scale_negative)
        else Inr (map2 syk_term
               (draws (\<lambda>loc scale k. (loc + scale * real k, Suc k))
                  (sqrt (6 / real ((2 * 2) ^ 3)) * (- 1) * 24) (2 * 2 choose 4)
                  (case Some 7 of Some s \<Rightarrow> nat s | None \<Rightarrow> 0))
               (combinations [0 ..< 2 * 2] 4)))"
    by blast
  then have neg: "fst (SYK_hamil (\<lambda>s. nat s) (\<lambda>loc scale k. (loc + scale * real k, Suc k)) 2 (- 1) (Some []) (Some 7) 0)
     = Inl (ValueError Scale_negative)"
    by (simp add: seed_examples)
  from same drawn neg seed_examples(2) show ?thesis by blast
qed

section \<open>Properties of the Pauli string codec\<close>

lemma split_from_nonempty: "part \<in> set (split_from s word) \<Longrightarrow> part \<noteq> []"
  by (induction s arbitrary: word) (auto split: if_splits)

lemma py_int_error: "py_int s = Inl e \<Longrightarrow> e = ValueError (Invalid_literal_for_int s)"
  by (auto simp add: py_int_def split: option.splits)

lemma bit_or_shift: "bit (m OR push_bit k (1::nat)) i = (bit m i \<or> i = k)"
  by (auto simp add: bit_simps)

lemma bit_or_power: "bit (m OR (2::nat) ^ k) i = (bit m i \<or> i = k)"
  using bit_or_shift [of m k i] by simp

lemma token_loop_ok:
  assumes "\<forall>part \<in> set parts. \<not> token_raises part"
  shows "\<exists>x z. token_loop parts x0 z0 = Inr (x, z)
           \<and> (\<forall>i. bit x i = (bit x0 i \<or> (\<exists>part \<in> set parts.
                  hd part \<in> set ''XY'' \<and> py_int (tl part) = Inr (int i))))
           \<and> (\<forall>i. bit z i = (bit z0 i \<or> (\<exists>part \<in> set parts.
                  hd part \<in> set ''ZY'' \<and> py_int (tl part) = Inr (int i))))"
  using assms
proof (induction parts arbitrary: x0 z0)
  case Nil
  then show ?case by simp
next
  case (Cons part parts)
  from Cons.prems have ok: "\<not> token_raises part" and rest: "\<forall>part \<in> set parts. \<not> token_raises part"
    by auto
  from ok obtain pauli digits k where part: "part = pauli # digits" and k: "py_int digits = Inr k"
    and nonneg: "pauli \<in> set ''XYZ'' \<longrightarrow> 0 \<le> k"
    by (auto simp add: token_raises_def split: list.splits sum.splits)
  let ?x1 = "(if pauli = CHR ''X'' \<or> pauli = CHR ''Y'' then x0 OR push_bit (nat k) 1 else x0)"
  let ?z1 = "(if pauli = CHR ''Z'' \<or> pauli = CHR ''Y'' then z0 OR push_bit (nat k) 1 else z0)"
  have step: "token_loop (part # parts) x0 z0 = token_loop parts ?x1 ?z1"
    using nonneg by (auto simp add: part k or_shift_def)
  from Cons.IH [OF rest, of ?x1 ?z1] obtain x z where
    res: "token_loop parts ?x1 ?z1 = Inr (x, z)"
    and xb: "\<forall>i. bit x i = (bit ?x1 i \<or> (\<exists>part \<in> set parts.
                  hd part \<in> set ''XY'' \<and> py_int (tl part) = Inr (int i)))"
    and zb: "\<forall>i. bit z i = (bit ?z1 i \<or> (\<exists>part \<in> set parts.
                  hd part \<in> set ''ZY'' \<and> py_int (tl part) = Inr (int i)))"
    by blast
  have x1: "bit ?x1 i = (bit x0 i \<or> (hd part \<in> set ''XY'' \<and> py_int (tl part) = Inr (int i)))" for i
    using nonneg by (auto simp add: part k bit_or_shift bit_or_power)
  have z1: "bit ?z1 i = (bit z0 i \<or> (hd part \<in> set ''ZY'' \<and> py_int (tl part) = Inr (int i)))" for i
    using nonneg by (auto simp add: part k bit_or_shift bit_or_power)
  have "\<forall>i. bit x i = (bit x0 i \<or> (\<exists>p \<in> set (part # parts).
                  hd p \<in> set ''XY'' \<and> py_int (tl p) = Inr (int i)))"
    using xb x1 by auto
  moreover have "\<forall>i. bit z i = (bit z0 i \<or> (\<exists>p \<in> set (part # parts).
                  hd p \<in> set ''ZY'' \<and> py_int (tl p) = Inr (int i)))"
    using zb z1 by auto
  ultimately show ?case
    using step res by auto
qed

lemma token_loop_raises:
  assumes "\<exists>part \<in> set parts. token_raises part" and "[] \<notin> set parts"
  shows "\<exists>e. token_loop parts x0 z0 = Inl (ValueError e)"
  using assms
proof (induction parts arbitrary: x0 z0)
  case Nil
  then show ?case by simp
next
  case (Cons part parts)
  from Cons.prems obtain pauli digits where part: "part = pauli # digits"
    by (cases part) auto
  show ?case
  proof (cases "token_raises part")
    case True
    then show ?thesis
      by (auto simp add: part token_raises_def or_shift_def dest: py_int_error split: sum.splits)
  next
    case False
    with Cons.prems have rest: "\<exists>part \<in> set parts. token_raises part" and ne: "[] \<notin> set parts"
      by auto
    from False obtain k where k: "py_int digits = Inr k" and nonneg: "pauli \<in> set ''XYZ'' \<longrightarrow> 0 \<le> k"
      by (auto simp add: part token_raises_def split: sum.splits)
    let ?x1 = "(if pauli = CHR ''X'' \<or> pauli = CHR ''Y'' then x0 OR push_bit (nat k) 1 else x0)"
    let ?z1 = "(if pauli = CHR ''Z'' \<or> pauli = CHR ''Y'' then z0 OR push_bit (nat k) 1 else z0)"
    have "token_loop (part # parts) x0 z0 = token_loop parts ?x1 ?z1"
      using nonneg by (auto simp add: part k or_shift_def)
    with Cons.IH [OF rest ne, of ?x1 ?z1] show ?thesis by simp
  qed
qed

lemma dense_loop_bits:
  "\<exists>x z. dense_loop (List.enumerate k cs) x0 z0 = (x, z)
     \<and> (\<forall>i. bit x i = (bit x0 i \<or> (k \<le> i \<and> i < k + length cs \<and> cs ! (i - k) \<in> set ''XY'')))
     \<and> (\<forall>i. bit z i = (bit z0 i \<or> (k \<le> i \<and> i < k + length cs \<and> cs ! (i - k) \<in> set ''ZY'')))"
proof (induction cs arbitrary: k x0 z0)
  case Nil
  then show ?case by auto
next
  case (Cons c cs)
  let ?x1 = "(if c = CHR ''X'' \<or> c = CHR ''Y'' then x0 OR push_bit k 1 else x0)"
  let ?z1 = "(if c = CHR ''Z'' \<or> c = CHR ''Y'' then z0 OR push_bit k 1 else z0)"
  have step: "dense_loop (List.enumerate k (c # cs)) x0 z0 = dense_loop (List.enumerate (Suc k) cs) ?x1 ?z1"
    by (simp add: Let_def)
  from Cons.IH [of "Suc k" ?x1 ?z1] obtain x z where
    res: "dense_loop (List.enumerate (Suc k) cs) ?x1 ?z1 = (x, z)"
    and xb: "\<forall>i. bit x i = (bit ?x1 i \<or> (Suc k \<le> i \<and> i < Suc k + length cs \<and> cs ! (i - Suc k) \<in> set ''XY''))"
    and zb: "\<forall>i. bit z i = (bit ?z1 i \<or> (Suc k \<le> i \<and> i < Suc k + length cs \<and> cs ! (i - Suc k) \<in> set ''ZY''))"
    by blast
  have nth: "(c # cs) ! (i - k) = (if i = k then c else cs ! (i - Suc k))" if "k \<le> i" for i
    using that by (auto simp add: nth_Cons' Suc_diff_le)
  have "\<forall>i. bit x i = (bit x0 i \<or> (k \<le> i \<and> i < k + length (c # cs) \<and> (c # cs) ! (i - k) \<in> set ''XY''))"
  proof
    fix i
    show "bit x i = (bit x0 i \<or> (k \<le> i \<and> i < k + length (c # cs) \<and> (c # cs) ! (i - k) \<in> set ''XY''))"
    proof (cases "k \<le> i")
      case True
      then show ?thesis using xb nth [OF True] by (auto simp add: bit_or_shift bit_or_power)
    next
      case False
      then show ?thesis using xb by (auto simp add: bit_or_shift bit_or_power)
    qed
  qed
  moreover have "\<forall>i. bit z i = (bit z0 i \<or> (k \<le> i \<and> i < k + length (c # cs) \<and> (c # cs) ! (i - k) \<in> set ''ZY''))"
  proof
    fix i
    show "bit z i = (bit z0 i \<or> (k \<le> i \<and> i < k + length (c # cs) \<and> (c # cs) ! (i - k) \<in> set ''ZY''))"
    proof (cases "k \<le> i")
      case True
      then show ?thesis using zb nth [OF True] by (auto simp add: bit_or_shift bit_or_power)
    next
      case False
      then show ?thesis using zb by (auto simp add: bit_or_shift bit_or_power)
    qed
  qed
  ultimately show ?case using step res by auto
qed

text \<open>
  C9, amended. \<open>pauli_string_to_masks\<close> has no validation pass. On a string without a
  space it never fails: every character other than X, Y and Z, an unknown letter
  included, is skipped, and bit \<open>i\<close> of the x mask (z mask) is set exactly when the
  \<open>i\<close>-th character from the right is X or Y (Z or Y). On a string with a space it returns
  a mask pair exactly when no token raises, that is when every token's index text is an
  integer for \<open>int()\<close> and no X, Y or Z token has a negative index; then bit \<open>i\<close> of
  the x mask (z mask) is set exactly when some token with letter X or Y (Z or Y) has index
  \<open>i\<close>, tokens with another letter being skipped and every non-negative index being
  accepted. Otherwise it raises \<open>ValueError\<close> and returns no mask pair.
\<close>

theorem pauli_string_to_masks_no_validation:
  "(CHR '' '' \<notin> set s \<longrightarrow>
      (\<exists>x z. pauli_string_to_masks s = Inr (x, z)
         \<and> (\<forall>i. bit x i = (i < length s \<and> rev s ! i \<in> set ''XY''))
         \<and> (\<forall>i. bit z i = (i < length s \<and> rev s ! i \<in> set ''ZY''))))
   \<and> (CHR '' '' \<in> set s \<and> (\<forall>part \<in> set (split_ws (strip_ws s)). \<not> token_raises part) \<longrightarrow>
      (\<exists>x z. pauli_string_to_masks s = Inr (x, z)
         \<and> (\<forall>i. bit x i = (\<exists>part \<in> set (split_ws (strip_ws s)).
                hd part \<in> set ''XY'' \<and> py_int (tl part) = Inr (int i)))
         \<and> (\<forall>i. bit z i = (\<exists>part \<in> set (split_ws (strip_ws s)).
                hd part \<in> set ''ZY'' \<and> py_int (tl part) = Inr (int i)))))
   \<and> (CHR '' '' \<in> set s \<and> (\<exists>part \<in> set (split_ws (strip_ws s)). token_raises part) \<longrightarrow>
      (\<exists>e. pauli_string_to_masks s = Inl (ValueError e)))"
proof -
  have dense: "\<exists>x z. pauli_string_to_masks s = Inr (x, z)
         \<and> (\<forall>i. bit x i = (i < length s \<and> rev s ! i \<in> set ''XY''))
         \<and> (\<forall>i. bit z i = (i < length s \<and> rev s ! i \<in> set ''ZY''))"
    if "CHR '' '' \<notin> set s"
    using that dense_loop_bits [of 0 "rev s" 0 0]
    by (auto simp add: pauli_string_to_masks_def)
  have ok: "\<exists>x z. pauli_string_to_masks s = Inr (x, z)
         \<and> (\<forall>i. bit x i = (\<exists>part \<in> set (split_ws (strip_ws s)).
                hd part \<in> set ''XY'' \<and> py_int (tl part) = Inr (int i)))
         \<and> (\<forall>i. bit z i = (\<exists>part \<in> set (split_ws (strip_ws s)).
                hd part \<in> set ''ZY'' \<and> py_int (tl part) = Inr (int i)))"
    if "CHR '' '' \<in> set s" and "\<forall>part \<in> set (split_ws (strip_ws s)). \<not> token_raises part"
    using that(1) token_loop_ok [OF that(2), of 0 0]
    by (simp add: pauli_string_to_masks_def)
  have bad: "\<exists>e. pauli_string_to_masks s = Inl (ValueError e)"
    if "CHR '' '' \<in> set s" and "\<exists>part \<in> set (split_ws (strip_ws s)). token_raises part"
  proof -
    have "[] \<notin> set (split_ws (strip_ws s))"
      using split_from_nonempty [of "[]" "strip_ws s" "[]"] by (auto simp add: split_ws_def)
    from token_loop_raises [OF that(2) this, of 0 0] that(1) show ?thesis
      by (simp add: pauli_string_to_masks_def)
  qed
  from dense ok bad show ?thesis by blast
qed

lemma split_X0_Y1: "split_ws (strip_ws ''X0 Y1'') = [''X0'', ''Y1'']"
  by (simp add: split_ws_def strip_ws_def isspace_def)

lemma split_Xa_Z0: "split_ws (strip_ws ''Xa Z0'') = [''Xa'', ''Z0'']"
  by (simp add: split_ws_def strip_ws_def isspace_def)

lemma split_Q0_X1: "split_ws (strip_ws ''Q0 X1'') = [''Q0'', ''X1'']"
  by (simp add: split_ws_def strip_ws_def isspace_def)

lemma py_int_examples:
  "py_int ''0'' = Inr 0" "py_int ''1'' = Inr 1"
  "py_int ''a'' = Inl (ValueError (Invalid_literal_for_int ''a''))"
  by (simp_all add: py_int_def isdigit_def)

theorem pauli_string_to_masks_no_validation_witness:
  "CHR '' '' \<notin> set ''XYZI''
   \<and> pauli_string_to_masks ''XYZI'' = Inr (12, 6)
   \<and> CHR '' '' \<in> set ''X0 Y1''
   \<and> \<not> token_raises ''X0'' \<and> \<not> token_raises ''Y1''
   \<and> pauli_string_to_masks ''X0 Y1'' = Inr (3, 2)
   \<and> CHR '' '' \<in> set ''Xa Z0''
   \<and> token_raises ''Xa''
   \<and> pauli_string_to_masks ''Xa Z0'' = Inl (ValueError (Invalid_literal_for_int ''a''))"
proof -
  have a: "CHR '' '' \<notin> set ''XYZI''" "CHR '' '' \<in> set ''X0 Y1''" "CHR '' '' \<in> set ''Xa Z0''"
    by simp_all
  have t: "\<not> token_raises ''X0''" "\<not> token_raises ''Y1''" "token_raises ''Xa''"
    by (simp_all add: token_raises_def py_int_examples)
  have d: "pauli_string_to_masks ''XYZI'' = Inr (12, 6)"
    using pauli_string_to_masks_no_validation [of "''XYZI''"]
    by (simp add: pauli_string_to_masks_def)
  have k: "pauli_string_to_masks ''X0 Y1'' = Inr (3, 2)"
    using pauli_string_to_masks_no_validation [of "''X0 Y1''"]
    by (simp add: pauli_string_to_masks_def split_X0_Y1 py_int_examples or_shift_def)
  have f: "pauli_string_to_masks ''Xa Z0'' = Inl (ValueError (Invalid_literal_for_int ''a''))"
    using pauli_string_to_masks_no_validation [of "''Xa Z0''"]
    by (simp add: pauli_string_to_masks_def split_Xa_Z0 py_int_examples)
  from a t d k f show ?thesis by blast
qed

text \<open>
  C9, as the claim states it, fails: a string with an unknown letter is parsed without
  failure, in both formats; the letter \<open>Q\<close> is skipped and the masks of the remaining
  letters are returned.
\<close>

theorem pauli_string_to_masks_counterexample:
  "pauli_string_to_masks ''XQ'' = Inr (2, 0)
   \<and> pauli_string_to_masks ''Q0 X1'' = Inr (2, 0)"
proof -
  have a: "pauli_string_to_masks ''XQ'' = Inr (2, 0)"
    by (simp add: pauli_string_to_masks_def)
  have b: "pauli_string_to_masks ''Q0 X1'' = Inr (2, 0)"
    by (simp add: pauli_string_to_masks_def split_Q0_X1 py_int_examples or_shift_def)
  from a b show ?thesis by blast
qed

end
